theory Spec2Isabelle
  imports Main
begin

section \<open>Python dictionaries as insertion-ordered association lists\<close>

text \<open>
  The registry \<^verbatim>\<open>SessionManager._sessions\<close> and the environment mappings are Python
  dictionaries. A dictionary keeps its keys in insertion order, which matters to the
  duplicate scan of \<^verbatim>\<open>create_session\<close> (the first match is returned), so a dictionary
  is an association list. Assignment to an existing key overwrites in place, to a new
  key appends; \<^verbatim>\<open>pop(k, None)\<close> returns the value or \<^verbatim>\<open>None\<close> and leaves no entry
  for the key.
\<close>

type_synonym ('k, 'v) dict = "('k \<times> 'v) list"

definition dict_get :: "('k, 'v) dict \<Rightarrow> 'k \<Rightarrow> 'v option" where
  "dict_get d k = map_of d k"

fun dict_setitem :: "'k \<Rightarrow> 'v \<Rightarrow> ('k, 'v) dict \<Rightarrow> ('k, 'v) dict" where
  "dict_setitem k v [] = [(k, v)]"
| "dict_setitem k v (p # d) =
     (if fst p = k then (k, v) # d else p # dict_setitem k v d)"

definition dict_pop :: "'k \<Rightarrow> ('k, 'v) dict \<Rightarrow> 'v option \<times> ('k, 'v) dict" where
  "dict_pop k d = (map_of d k, filter (\<lambda>p. fst p \<noteq> k) d)"

definition dict_values :: "('k, 'v) dict \<Rightarrow> 'v list" where
  "dict_values d = map snd d"

definition dict_keys :: "('k, 'v) dict \<Rightarrow> 'k list" where
  "dict_keys d = map fst d"

text \<open>\<^verbatim>\<open>d.update(e)\<close>: the items of \<^verbatim>\<open>e\<close> are assigned in order.\<close>

fun dict_update :: "('k, 'v) dict \<Rightarrow> ('k, 'v) dict \<Rightarrow> ('k, 'v) dict" where
  "dict_update d [] = d"
| "dict_update d (p # e) = dict_update (dict_setitem (fst p) (snd p) d) e"

section \<open>Data model of \<^verbatim>\<open>session_manager.py\<close>\<close>

type_synonym bytes = string

text \<open>
  An \<^verbatim>\<open>asyncio.Queue(maxsize=1000)\<close> of a subscriber: its pending items, oldest first.
  An item is a chunk of PTY output or \<^verbatim>\<open>None\<close>, the end-of-session sentinel.
\<close>

type_synonym queue = "bytes option list"

text \<open>
  The dataclass \<^verbatim>\<open>ClaudeSession\<close>. Times are seconds as integers. \<open>loop\<close> tells whether
  \<^verbatim>\<open>_loop\<close> is an event loop (not \<^verbatim>\<open>None\<close>); \<open>transcript_file\<close> holds what was written
  to the transcript, when one is open. The subscriber queues are objects with an
  identity, here a number.
\<close>

record ClaudeSession =
  session_id :: string
  user_email :: string
  session_name :: string
  master_fd :: int
  pid :: int
  workspace_dir :: string
  output_buffer :: "bytes list"
  last_activity :: int
  started_at :: int
  alive :: bool
  subscribers :: "(nat \<times> queue) list"
  loop :: bool
  transcript_file :: "bytes list option"

type_synonym registry = "(string, ClaudeSession) dict"

text \<open>The module constants read from the process environment at import time.\<close>

record config =
  max_sessions :: int
  max_sessions_per_user :: int
  idle_timeout_minutes :: int
  output_buffer_maxlen :: int

definition default_config :: config where
  "default_config =
     \<lparr>max_sessions = 50, max_sessions_per_user = 10,
      idle_timeout_minutes = 0, output_buffer_maxlen = 200000\<rparr>"

datatype py_error =
    RuntimeError_max_sessions int
  | RuntimeError_max_sessions_per_user int
  | OSError string
  | ValueError
  | Struct_error

text \<open>The system calls a call makes, in order, as far as the claims speak of them.\<close>

datatype os_call =
    Mkdir string
  | Openpty
  | Fork
  | Close_fd int
  | Killpg int
  | Kill int
  | Waitpid int
  | Write_fd int bytes
  | Ioctl_winsize int int int
  | Thread_start string
  | Transcript_close
  | Log_stopped string

datatype fork_outcome = Fork_error | In_parent int | In_child

text \<open>
  \<^verbatim>\<open>os.execvpe\<close> replaces the process image and does not return; when it fails it
  raises \<^verbatim>\<open>OSError\<close>. The comment on line 263 of the source expects a failed call to
  return, so a plain return is the third outcome, which lets line 264 appear in the model.
\<close>

datatype exec_outcome = Exec_replaced | Exec_raises | Exec_returns

text \<open>
  What the operating system and the Python runtime answer during one call. A
  \<open>None\<close> or \<open>False\<close> stands for the call raising \<^verbatim>\<open>OSError\<close>.
  \<open>default_workspace email name\<close> is
  \<^verbatim>\<open>str(WORKSPACES_DIR / sha256(email.lower())[:12] / name)\<close> and \<open>path_str w\<close> is
  \<^verbatim>\<open>str(Path(w))\<close>: \<^verbatim>\<open>hashlib\<close> and \<^verbatim>\<open>pathlib\<close> are not part of the repository.
  \<open>str_upper\<close> is \<^verbatim>\<open>str.upper\<close> on a string that has a character outside ASCII, where
  the result follows the Unicode case mapping of the interpreter; strings are the
  UTF-8 bytes of the Python strings.
\<close>

record os_world =
  now :: int
  environ :: "(string, string) dict"
  default_workspace :: "string \<Rightarrow> string \<Rightarrow> string"
  path_str :: "string \<Rightarrow> string"
  mkdir_ok :: "string \<Rightarrow> bool"
  is_executable_file :: "string \<Rightarrow> bool"
  openpty :: "(int \<times> int) option"
  fork :: fork_outcome
  child_setup_ok :: bool
  execvpe :: "string \<Rightarrow> exec_outcome"
  running_loop :: bool
  transcript_open_ok :: bool
  transcript_write_ok :: bool
  getpgid :: "int \<Rightarrow> int option"
  killpg_ok :: "int \<Rightarrow> bool"
  write_ok :: bool
  loop_closed :: bool
  str_upper :: "string \<Rightarrow> string"

section \<open>\<^verbatim>\<open>SessionManager.create_session\<close>\<close>

subsection \<open>The child's environment (lines 220 to 235)\<close>

text \<open>
  \<^verbatim>\<open>str.upper\<close>. On an ASCII string the letters \<open>a\<close> to \<open>z\<close> go to \<open>A\<close> to \<open>Z\<close> and
  every other character stays. A string with a character outside ASCII (a byte with
  its top bit set) is upper-cased by the interpreter's Unicode mapping, which can
  lengthen it and can yield ASCII letters.
\<close>

definition upper_char :: "char \<Rightarrow> char" where
  "upper_char c =
     (case map_of (zip ''abcdefghijklmnopqrstuvwxyz'' ''ABCDEFGHIJKLMNOPQRSTUVWXYZ'') c of
        Some u \<Rightarrow> u
      | None \<Rightarrow> c)"

definition is_ascii :: "string \<Rightarrow> bool" where
  "is_ascii s = list_all (\<lambda>c. \<not> digit7 c) s"

definition upper :: "os_world \<Rightarrow> string \<Rightarrow> string" where
  "upper os s = (if is_ascii s then map upper_char s else str_upper os s)"

text \<open>\<^verbatim>\<open>pat in s\<close> on strings: \<open>pat\<close> occurs in \<open>s\<close> as a contiguous piece.\<close>

fun py_in :: "string \<Rightarrow> string \<Rightarrow> bool" where
  "py_in pat [] = (pat = [])"
| "py_in pat (c # cs) = (take (length pat) (c # cs) = pat \<or> py_in pat cs)"

definition environ_get :: "os_world \<Rightarrow> string \<Rightarrow> string \<Rightarrow> string" where
  "environ_get os k dflt = (case dict_get (environ os) k of Some v \<Rightarrow> v | None \<Rightarrow> dflt)"

definition is_oauth_key :: "os_world \<Rightarrow> string \<Rightarrow> bool" where
  "is_oauth_key os k = py_in ''OAUTH'' (upper os k)"

definition build_child_env ::
  "os_world \<Rightarrow> string \<Rightarrow> (string, string) dict option \<Rightarrow> (string, string) dict" where
  "build_child_env os ws env =
     (let home_dir = environ_get os ''HOME'' ''/tmp/workshop-home'';
          child_env =
            dict_update (environ os)
              [(''HOME'', home_dir),
               (''PWD'', ws),
               (''TERM'', ''xterm-256color''),
               (''LANG'', ''en_US.UTF-8''),
               (''PATH'', home_dir @ ''/.local/bin:'' @ environ_get os ''PATH'' ''/usr/bin'')];
          stripped = filter (\<lambda>p. \<not> is_oauth_key os (fst p)) child_env
      in case env of
           None \<Rightarrow> stripped
         | Some e \<Rightarrow> if e = [] then stripped else dict_update stripped e)"

subsection \<open>\<^verbatim>\<open>_resolve_claude_binary\<close> (lines 461 to 472)\<close>

text \<open>\<^verbatim>\<open>os.path.join\<close> of relative components.\<close>

definition path_join :: "string \<Rightarrow> string \<Rightarrow> string" where
  "path_join a b =
     (if a = [] \<or> last a = CHR ''/'' then a @ b else a @ ''/'' @ b)"

definition resolve_claude_binary :: "os_world \<Rightarrow> string" where
  "resolve_claude_binary os =
     (let home = environ_get os ''HOME'' ''/tmp'';
          candidates =
            [path_join (path_join (path_join home ''.local'') ''bin'') ''claude'',
             ''/app/python/source_code/node_modules/.bin/claude'',
             ''./node_modules/.bin/claude'']
      in case find (is_executable_file os) candidates of
           Some path \<Rightarrow> path
         | None \<Rightarrow> ''claude'')"

subsection \<open>The critical section (lines 184 to 213)\<close>

definition live_count :: "registry \<Rightarrow> nat" where
  "live_count reg = length (filter alive (dict_values reg))"

definition find_duplicate :: "string \<Rightarrow> string \<Rightarrow> registry \<Rightarrow> ClaudeSession option" where
  "find_duplicate email name reg =
     find (\<lambda>s. user_email s = email \<and> session_name s = name) (dict_values reg)"

definition user_sessions :: "string \<Rightarrow> registry \<Rightarrow> ClaudeSession list" where
  "user_sessions email reg =
     filter (\<lambda>s. alive s \<and> user_email s = email) (dict_values reg)"

definition workspace_path :: "os_world \<Rightarrow> string \<Rightarrow> string \<Rightarrow> string option \<Rightarrow> string" where
  "workspace_path os email name workspace_override =
     (case workspace_override of
        None \<Rightarrow> default_workspace os email name
      | Some w \<Rightarrow> if w = [] then default_workspace os email name else path_str os w)"

definition new_placeholder :: "os_world \<Rightarrow> string \<Rightarrow> string \<Rightarrow> string \<Rightarrow> string \<Rightarrow> ClaudeSession" where
  "new_placeholder os sid email name ws =
     \<lparr>session_id = sid, user_email = email, session_name = name,
      master_fd = - 1, pid = - 1, workspace_dir = ws,
      output_buffer = [], last_activity = now os, started_at = now os,
      alive = True, subscribers = [], loop = False, transcript_file = None\<rparr>"

datatype locked_outcome =
    Locked_raise py_error
  | Locked_return ClaudeSession
  | Locked_placeholder ClaudeSession

text \<open>
  The body of \<^verbatim>\<open>with self._lock:\<close>. The deque of the placeholder is built with
  \<^verbatim>\<open>maxlen=OUTPUT_BUFFER_MAXLEN\<close>, which raises \<^verbatim>\<open>ValueError\<close> for a negative bound.
\<close>

definition create_session_locked ::
  "config \<Rightarrow> os_world \<Rightarrow> string \<Rightarrow> string \<Rightarrow> string \<Rightarrow> string \<Rightarrow> registry
     \<Rightarrow> locked_outcome \<times> registry" where
  "create_session_locked cfg os sid email name ws reg =
     (if max_sessions cfg \<le> int (live_count reg)
      then (Locked_raise (RuntimeError_max_sessions (max_sessions cfg)), reg)
      else case find_duplicate email name reg of
        Some s \<Rightarrow> (Locked_return s, reg)
      | None \<Rightarrow>
          if max_sessions_per_user cfg \<le> int (length (user_sessions email reg))
          then (Locked_raise
                  (RuntimeError_max_sessions_per_user (max_sessions_per_user cfg)), reg)
          else if output_buffer_maxlen cfg < 0 then (Locked_raise ValueError, reg)
          else (Locked_placeholder (new_placeholder os sid email name ws),
                dict_setitem sid (new_placeholder os sid email name ws) reg))"

subsection \<open>Spawning (lines 215 to 310)\<close>

datatype create_outcome =
    Return ClaudeSession
  | Raise py_error
  | Child_exec string "string list" "(string, string) dict"
  | Child_raise py_error
  | Child_exit int

text \<open>
  Lines 241 to 264, run by the forked child. The descriptor and terminal calls before
  \<^verbatim>\<open>execvpe\<close> succeed together or one of them raises \<^verbatim>\<open>OSError\<close>.
\<close>

definition child_branch ::
  "os_world \<Rightarrow> string \<Rightarrow> (string, string) dict \<Rightarrow> create_outcome" where
  "child_branch os claude_bin child_env =
     (if \<not> child_setup_ok os then Child_raise (OSError ''child setup'')
      else case execvpe os claude_bin of
        Exec_replaced \<Rightarrow>
          Child_exec claude_bin [claude_bin, ''--dangerously-skip-permissions''] child_env
      | Exec_raises \<Rightarrow> Child_raise (OSError ''execvpe'')
      | Exec_returns \<Rightarrow> Child_exit 1)"

text \<open>
  The rest of \<^verbatim>\<open>create_session\<close> after the lock is released. The placeholder is the
  object stored in the registry, so its later assignments show in the registry entry.
\<close>

definition spawn ::
  "os_world \<Rightarrow> string \<Rightarrow> string \<Rightarrow> (string, string) dict option \<Rightarrow> ClaudeSession \<Rightarrow> registry
     \<Rightarrow> create_outcome \<times> registry \<times> os_call list" where
  "spawn os sid ws env placeholder reg =
     (if \<not> mkdir_ok os ws then (Raise (OSError ''mkdir''), reg, [Mkdir ws])
      else
        let claude_bin = resolve_claude_binary os;
            child_env = build_child_env os ws env
        in case openpty os of
          None \<Rightarrow> (Raise (OSError ''openpty''), reg, [Mkdir ws, Openpty])
        | Some (mfd, sfd) \<Rightarrow>
            (case fork os of
               Fork_error \<Rightarrow> (Raise (OSError ''fork''), reg, [Mkdir ws, Openpty, Fork])
             | In_child \<Rightarrow>
                 (child_branch os claude_bin child_env, reg, [Mkdir ws, Openpty, Fork])
             | In_parent child_pid \<Rightarrow>
                 let session = placeholder
                       \<lparr>pid := child_pid, master_fd := mfd, loop := running_loop os,
                        workspace_dir := ws,
                        transcript_file :=
                          (if transcript_open_ok os then Some [] else None)\<rparr>
                 in (Return session, dict_setitem sid session reg,
                     [Mkdir ws, Openpty, Fork, Close_fd sfd, Thread_start sid])))"

definition create_session ::
  "config \<Rightarrow> os_world \<Rightarrow> string \<Rightarrow> string \<Rightarrow> string \<Rightarrow> (string, string) dict option
     \<Rightarrow> string option \<Rightarrow> registry \<Rightarrow> create_outcome \<times> registry \<times> os_call list" where
  "create_session cfg os sid email name env workspace_override reg =
     (let ws = workspace_path os email name workspace_override
      in case create_session_locked cfg os sid email name ws reg of
           (Locked_raise e, reg') \<Rightarrow> (Raise e, reg', [])
         | (Locked_return s, reg') \<Rightarrow> (Return s, reg', [])
         | (Locked_placeholder p, reg') \<Rightarrow> spawn os sid ws env p reg')"

section \<open>Lookup and teardown\<close>

datatype call_outcome = Returned_None | Raised py_error

definition get_session :: "registry \<Rightarrow> string \<Rightarrow> ClaudeSession option" where
  "get_session reg sid = dict_get reg sid"

definition get_user_sessions :: "registry \<Rightarrow> string \<Rightarrow> ClaudeSession list" where
  "get_user_sessions reg email = filter (\<lambda>s. user_email s = email) (dict_values reg)"

text \<open>
  Lines 328 to 334: \<^verbatim>\<open>SIGTERM\<close> to the process group of the child; when
  \<^verbatim>\<open>os.getpgid\<close> or \<^verbatim>\<open>os.killpg\<close> raises, to the child alone. A failure of
  \<^verbatim>\<open>os.kill\<close>, \<^verbatim>\<open>os.close\<close> or \<^verbatim>\<open>os.waitpid\<close> is caught and changes nothing.
\<close>

definition signal_child :: "os_world \<Rightarrow> ClaudeSession \<Rightarrow> os_call list" where
  "signal_child os s =
     (case getpgid os (pid s) of
        None \<Rightarrow> [Kill (pid s)]
      | Some g \<Rightarrow> if killpg_ok os g then [Killpg g] else [Killpg g, Kill (pid s)])"

definition teardown :: "os_world \<Rightarrow> string \<Rightarrow> ClaudeSession \<Rightarrow> os_call list" where
  "teardown os sid s =
     signal_child os s @ [Close_fd (master_fd s), Waitpid (pid s), Log_stopped sid]"

definition stop_session ::
  "os_world \<Rightarrow> string \<Rightarrow> registry \<Rightarrow> call_outcome \<times> registry \<times> os_call list" where
  "stop_session os sid reg =
     (case dict_pop sid reg of
        (None, reg') \<Rightarrow> (Returned_None, reg', [])
      | (Some s, reg') \<Rightarrow> (Returned_None, reg', teardown os sid (s\<lparr>alive := False\<rparr>)))"

text \<open>The loop \<^verbatim>\<open>for sid in ...: self.stop_session(sid)\<close> of the reaper and of \<^verbatim>\<open>stop_all\<close>.\<close>

fun stop_sessions ::
  "os_world \<Rightarrow> string list \<Rightarrow> registry \<Rightarrow> call_outcome \<times> registry \<times> os_call list" where
  "stop_sessions os [] reg = (Returned_None, reg, [])"
| "stop_sessions os (sid # sids) reg =
     (case stop_session os sid reg of
        (Raised e, reg', calls) \<Rightarrow> (Raised e, reg', calls)
      | (Returned_None, reg', calls) \<Rightarrow>
          (case stop_sessions os sids reg' of
             (r, reg'', calls') \<Rightarrow> (r, reg'', calls @ calls')))"

definition idle_seconds :: "os_world \<Rightarrow> ClaudeSession \<Rightarrow> int" where
  "idle_seconds os s = now os - last_activity s"

definition cleanup_select :: "config \<Rightarrow> os_world \<Rightarrow> registry \<Rightarrow> string list" where
  "cleanup_select cfg os reg =
     map fst
       (filter
          (\<lambda>p. \<not> alive (snd p) \<or>
                (0 < idle_timeout_minutes cfg \<and>
                 idle_timeout_minutes cfg * 60 < idle_seconds os (snd p)))
          reg)"

definition cleanup_idle ::
  "config \<Rightarrow> os_world \<Rightarrow> registry \<Rightarrow> call_outcome \<times> registry \<times> os_call list" where
  "cleanup_idle cfg os reg = stop_sessions os (cleanup_select cfg os reg) reg"

definition stop_all :: "os_world \<Rightarrow> registry \<Rightarrow> call_outcome \<times> registry \<times> os_call list" where
  "stop_all os reg = stop_sessions os (dict_keys reg) reg"

section \<open>PTY input and resizing\<close>

definition touch :: "os_world \<Rightarrow> ClaudeSession \<Rightarrow> ClaudeSession" where
  "touch os s = s\<lparr>last_activity := now os\<rparr>"

definition write_to_session ::
  "os_world \<Rightarrow> string \<Rightarrow> bytes \<Rightarrow> registry \<Rightarrow> call_outcome \<times> registry \<times> os_call list" where
  "write_to_session os sid data reg =
     (case get_session reg sid of
        None \<Rightarrow> (Returned_None, reg, [])
      | Some s \<Rightarrow>
          if alive s then
            (if write_ok os
             then (Returned_None, dict_setitem sid (touch os s) reg,
                   [Write_fd (master_fd s) data])
             else (Returned_None, dict_setitem sid (s\<lparr>alive := False\<rparr>) reg,
                   [Write_fd (master_fd s) data]))
          else (Returned_None, reg, []))"

text \<open>
  \<^verbatim>\<open>struct.pack("HHHH", rows, cols, 0, 0)\<close> raises \<^verbatim>\<open>struct.error\<close>, which is not
  caught, unless both numbers fit an unsigned short. \<^verbatim>\<open>fcntl.ioctl\<close> on a negative
  descriptor, as a placeholder has, raises \<^verbatim>\<open>ValueError\<close>, which is not caught
  either; an \<^verbatim>\<open>OSError\<close> of the call is.
\<close>

definition resize_session ::
  "os_world \<Rightarrow> string \<Rightarrow> int \<Rightarrow> int \<Rightarrow> registry \<Rightarrow> call_outcome \<times> registry \<times> os_call list" where
  "resize_session os sid rows cols reg =
     (case get_session reg sid of
        None \<Rightarrow> (Returned_None, reg, [])
      | Some s \<Rightarrow>
          if alive s then
            (if rows < 0 \<or> 65535 < rows \<or> cols < 0 \<or> 65535 < cols
             then (Raised Struct_error, reg, [])
             else if master_fd s < 0 then (Raised ValueError, reg, [])
             else (Returned_None, reg, [Ioctl_winsize (master_fd s) rows cols]))
          else (Returned_None, reg, []))"

section \<open>Subscribers\<close>

definition queue_maxsize :: nat where
  "queue_maxsize = 1000"

text \<open>\<^verbatim>\<open>put_nowait\<close> raises \<^verbatim>\<open>QueueFull\<close> on a full queue; the item is then lost.\<close>

definition put_nowait :: "queue \<Rightarrow> bytes option \<Rightarrow> queue" where
  "put_nowait q x = (if queue_maxsize \<le> length q then q else q @ [x])"

definition fresh_qid :: "(nat \<times> queue) list \<Rightarrow> nat" where
  "fresh_qid subs = fold (\<lambda>p m. max (Suc (fst p)) m) subs 0"

definition subscribe :: "ClaudeSession \<Rightarrow> nat \<times> ClaudeSession" where
  "subscribe s =
     (let q = fresh_qid (subscribers s)
      in (q, s\<lparr>subscribers := subscribers s @ [(q, [])]\<rparr>))"

fun remove_queue :: "nat \<Rightarrow> (nat \<times> queue) list \<Rightarrow> (nat \<times> queue) list" where
  "remove_queue q [] = []"
| "remove_queue q (p # subs) = (if fst p = q then subs else p # remove_queue q subs)"

definition unsubscribe :: "nat \<Rightarrow> ClaudeSession \<Rightarrow> ClaudeSession" where
  "unsubscribe q s = s\<lparr>subscribers := remove_queue q (subscribers s)\<rparr>"

section \<open>\<^verbatim>\<open>SessionManager._reader_loop\<close>\<close>

text \<open>
  \<^verbatim>\<open>deque(maxlen=n).append\<close>: a full deque discards its oldest item; a deque of
  length bound zero stays empty.
\<close>

definition deque_append :: "int \<Rightarrow> 'a list \<Rightarrow> 'a \<Rightarrow> 'a list" where
  "deque_append maxlen buf x =
     (if int (length buf) < maxlen then buf @ [x]
      else if maxlen = 0 then []
      else tl buf @ [x])"

text \<open>
  \<^verbatim>\<open>loop.call_soon_threadsafe(q.put_nowait, x)\<close> for every subscriber, when the session
  has a loop. On a closed loop the call raises \<^verbatim>\<open>RuntimeError\<close>, which is caught. The
  loop runs its callbacks in the order they were scheduled, so the puts reach a queue
  in the reader's order.
\<close>

definition broadcast :: "os_world \<Rightarrow> ClaudeSession \<Rightarrow> bytes option \<Rightarrow> (nat \<times> queue) list" where
  "broadcast os s x =
     (if loop s \<and> \<not> loop_closed os
      then map (\<lambda>p. (fst p, put_nowait (snd p) x)) (subscribers s)
      else subscribers s)"

text \<open>
  Lines 401 to 410, the first half of a pass of the loop body on a chunk that is not
  empty: the chunk goes into the ring buffer, the activity time is set and the
  transcript is written.
\<close>

definition reader_append :: "config \<Rightarrow> os_world \<Rightarrow> ClaudeSession \<Rightarrow> bytes \<Rightarrow> ClaudeSession" where
  "reader_append cfg os s data =
     s\<lparr>output_buffer := deque_append (output_buffer_maxlen cfg) (output_buffer s) data,
       last_activity := now os,
       transcript_file :=
         (case transcript_file s of
            None \<Rightarrow> None
          | Some t \<Rightarrow> if transcript_write_ok os then Some (t @ [data]) else Some t)\<rparr>"

text \<open>
  Lines 413 to 418, the second half: the subscribers of that moment are copied and the
  chunk is put to each of them.
\<close>

definition reader_fanout :: "os_world \<Rightarrow> ClaudeSession \<Rightarrow> bytes \<Rightarrow> ClaudeSession" where
  "reader_fanout os s data = s\<lparr>subscribers := broadcast os s (Some data)\<rparr>"

text \<open>A whole pass, as the reader runs it when no other thread acts in between.\<close>

definition reader_chunk :: "config \<Rightarrow> os_world \<Rightarrow> ClaudeSession \<Rightarrow> bytes \<Rightarrow> ClaudeSession" where
  "reader_chunk cfg os s data = reader_fanout os (reader_append cfg os s data) data"

text \<open>Lines 422 to 444: what the reader does once the loop is left.\<close>

definition reader_exit :: "os_world \<Rightarrow> ClaudeSession \<Rightarrow> ClaudeSession \<times> os_call list" where
  "reader_exit os s =
     (s\<lparr>alive := False, subscribers := broadcast os s None\<rparr>,
      (if transcript_file s = None then [] else [Transcript_close]) @ [Waitpid (pid s)])"

text \<open>
  What one \<^verbatim>\<open>os.read(master_fd, 4096)\<close> gives: bytes (none at end of file) or
  \<^verbatim>\<open>OSError\<close>.
\<close>

datatype read_outcome = Read_data bytes | Read_error

text \<open>
  The reader on the reads the descriptor will give, in order. The result is \<open>None\<close>
  when the reads run out before the loop ends: the thread is then blocked in
  \<^verbatim>\<open>os.read\<close> and has not returned.
\<close>

fun reader_loop ::
  "config \<Rightarrow> os_world \<Rightarrow> read_outcome list \<Rightarrow> ClaudeSession
     \<Rightarrow> (ClaudeSession \<times> os_call list) option" where
  "reader_loop cfg os [] s = (if alive s then None else Some (reader_exit os s))"
| "reader_loop cfg os (r # rs) s =
     (if \<not> alive s then Some (reader_exit os s)
      else case r of
        Read_error \<Rightarrow> Some (reader_exit os s)
      | Read_data d \<Rightarrow>
          if d = [] then Some (reader_exit os s)
          else reader_loop cfg os rs (reader_chunk cfg os s d))"

section \<open>The handler \<^verbatim>\<open>ws_terminal\<close> against the reader (\<^verbatim>\<open>app.py\<close>, lines 322 to 338)\<close>

text \<open>
  After \<^verbatim>\<open>accept\<close> the handler touches the session and sends a copy of the output
  buffer, then subscribes, then forwards what its queue yields until the sentinel.
  The sends to the socket are taken to succeed; \<open>sent\<close> is what the client has
  received.
\<close>

datatype ws_phase = Accepted | Replayed | Subscribed nat | Closed

record ws_handler =
  phase :: ws_phase
  sent :: "bytes list"

definition queue_of :: "nat \<Rightarrow> ClaudeSession \<Rightarrow> queue option" where
  "queue_of q s = dict_get (subscribers s) q"

definition ws_step ::
  "os_world \<Rightarrow> ClaudeSession \<times> ws_handler \<Rightarrow> ClaudeSession \<times> ws_handler" where
  "ws_step os st =
     (case st of (s, h) \<Rightarrow>
        (case phase h of
           Accepted \<Rightarrow>
             (touch os s, h\<lparr>phase := Replayed, sent := sent h @ output_buffer s\<rparr>)
         | Replayed \<Rightarrow> (case subscribe s of (q, s') \<Rightarrow> (s', h\<lparr>phase := Subscribed q\<rparr>))
         | Subscribed q \<Rightarrow>
             (case queue_of q s of
                None \<Rightarrow> (s, h)
              | Some [] \<Rightarrow> (s, h)
              | Some (None # rest) \<Rightarrow> (unsubscribe q s, h\<lparr>phase := Closed\<rparr>)
              | Some (Some d # rest) \<Rightarrow>
                  (s\<lparr>subscribers := dict_setitem q rest (subscribers s)\<rparr>,
                   h\<lparr>sent := sent h @ [d]\<rparr>))
         | Closed \<Rightarrow> (s, h)))"

text \<open>
  The reader is another thread, and the two halves of its pass are separate
  statements, so a step of the handler may fall before a pass, after it, or between
  its halves. The reader is about to read, or holds a chunk it has put into the buffer
  and not yet put to the subscribers, or has ended. A put is scheduled on the loop
  and runs there later, in the order of scheduling; for a queue that is among the
  copied subscribers the step \<open>Reader_fanout\<close> stands for the moment its put runs,
  for a queue subscribed after the copy it stands for the moment of the copy.
\<close>

datatype reader_state = Reading | Holding bytes | Ended

datatype event = Reader_read read_outcome | Reader_fanout | Ws_step

text \<open>
  One step of the two threads on a session. An event that does not fit the state of
  the reader does nothing.
\<close>

fun system_step ::
  "config \<Rightarrow> os_world \<Rightarrow> event \<Rightarrow> reader_state \<times> ClaudeSession \<times> ws_handler
     \<Rightarrow> reader_state \<times> ClaudeSession \<times> ws_handler" where
  "system_step cfg os (Reader_read r) (rd, s, h) =
     (case rd of
        Reading \<Rightarrow>
          (if \<not> alive s then (Ended, fst (reader_exit os s), h)
           else case r of
             Read_error \<Rightarrow> (Ended, fst (reader_exit os s), h)
           | Read_data d \<Rightarrow>
               if d = [] then (Ended, fst (reader_exit os s), h)
               else (Holding d, reader_append cfg os s d, h))
      | Holding d \<Rightarrow> (rd, s, h)
      | Ended \<Rightarrow> (rd, s, h))"
| "system_step cfg os Reader_fanout (rd, s, h) =
     (case rd of
        Holding d \<Rightarrow> (Reading, reader_fanout os s d, h)
      | Reading \<Rightarrow> (rd, s, h)
      | Ended \<Rightarrow> (rd, s, h))"
| "system_step cfg os Ws_step (rd, s, h) =
     (case ws_step os (s, h) of (s', h') \<Rightarrow> (rd, s', h'))"

definition system_run ::
  "config \<Rightarrow> os_world \<Rightarrow> event list \<Rightarrow> reader_state \<times> ClaudeSession \<times> ws_handler
     \<Rightarrow> reader_state \<times> ClaudeSession \<times> ws_handler" where
  "system_run cfg os evs st = fold (system_step cfg os) evs st"

text \<open>The whole passes of the reader on the given chunks, one after the other.\<close>

definition whole_passes :: "bytes list \<Rightarrow> event list" where
  "whole_passes ds = concat (map (\<lambda>d. [Reader_read (Read_data d), Reader_fanout]) ds)"

text \<open>
  The chunks the reader puts to the subscribers during a schedule, from a given state
  of the reader.
\<close>

fun fanned_out :: "reader_state \<Rightarrow> event list \<Rightarrow> bytes list" where
  "fanned_out rd [] = []"
| "fanned_out Reading (Reader_read (Read_data d) # evs) = fanned_out (Holding d) evs"
| "fanned_out (Holding d) (Reader_fanout # evs) = d # fanned_out Reading evs"
| "fanned_out rd (e # evs) = fanned_out rd evs"

text \<open>
  A schedule after the subscription in which the reader only reads chunks that are not
  empty, and the queue, holding \<open>n\<close> items at its start, is never full when a chunk
  is put to it.
\<close>

fun no_overflow :: "reader_state \<Rightarrow> nat \<Rightarrow> event list \<Rightarrow> bool" where
  "no_overflow rd n [] = True"
| "no_overflow Reading n (Reader_read (Read_data d) # evs) =
     (d \<noteq> [] \<and> no_overflow (Holding d) n evs)"
| "no_overflow Reading n (Reader_read Read_error # evs) = False"
| "no_overflow (Holding d) n (Reader_fanout # evs) =
     (n < queue_maxsize \<and> no_overflow Reading (Suc n) evs)"
| "no_overflow rd n (Ws_step # evs) = no_overflow rd (n - 1) evs"
| "no_overflow rd n (e # evs) = no_overflow rd n evs"

section \<open>Histories of the registry\<close>

text \<open>
  The operations that touch the registry or a registered session, each with the
  answers of the operating system during it. A reader pass is allowed on any
  registered session at any time, which covers every reader thread.
\<close>

datatype op =
    Op_create os_world string string string "(string, string) dict option" "string option"
  | Op_stop os_world string
  | Op_cleanup os_world
  | Op_stop_all os_world
  | Op_write os_world string bytes
  | Op_resize os_world string int int
  | Op_reader os_world string read_outcome
  | Op_subscribe string
  | Op_unsubscribe string nat
  | Op_touch os_world string

definition on_session :: "string \<Rightarrow> (ClaudeSession \<Rightarrow> ClaudeSession) \<Rightarrow> registry \<Rightarrow> registry" where
  "on_session sid f reg =
     (case get_session reg sid of None \<Rightarrow> reg | Some s \<Rightarrow> dict_setitem sid (f s) reg)"

definition reader_pass :: "config \<Rightarrow> os_world \<Rightarrow> read_outcome \<Rightarrow> ClaudeSession \<Rightarrow> ClaudeSession" where
  "reader_pass cfg os r s =
     (if \<not> alive s then fst (reader_exit os s)
      else case r of
        Read_error \<Rightarrow> fst (reader_exit os s)
      | Read_data d \<Rightarrow> if d = [] then fst (reader_exit os s) else reader_chunk cfg os s d)"

fun apply_op :: "config \<Rightarrow> op \<Rightarrow> registry \<Rightarrow> registry" where
  "apply_op cfg (Op_create os sid email name env wso) reg =
     fst (snd (create_session cfg os sid email name env wso reg))"
| "apply_op cfg (Op_stop os sid) reg = fst (snd (stop_session os sid reg))"
| "apply_op cfg (Op_cleanup os) reg = fst (snd (cleanup_idle cfg os reg))"
| "apply_op cfg (Op_stop_all os) reg = fst (snd (stop_all os reg))"
| "apply_op cfg (Op_write os sid data) reg = fst (snd (write_to_session os sid data reg))"
| "apply_op cfg (Op_resize os sid rows cols) reg =
     fst (snd (resize_session os sid rows cols reg))"
| "apply_op cfg (Op_reader os sid r) reg = on_session sid (reader_pass cfg os r) reg"
| "apply_op cfg (Op_subscribe sid) reg = on_session sid (\<lambda>s. snd (subscribe s)) reg"
| "apply_op cfg (Op_unsubscribe sid q) reg = on_session sid (unsubscribe q) reg"
| "apply_op cfg (Op_touch os sid) reg = on_session sid (touch os) reg"

definition run :: "config \<Rightarrow> op list \<Rightarrow> registry \<Rightarrow> registry" where
  "run cfg ops reg = fold (apply_op cfg) ops reg"

section \<open>Concrete worlds and sessions\<close>

text \<open>
  A world in which every call succeeds and the caller of \<^verbatim>\<open>fork\<close> is the parent; the
  process environment holds a home directory, a search path and an OAuth token.
\<close>

definition sunny_os :: os_world where
  "sunny_os =
     \<lparr>now = 1000,
      environ = [(''HOME'', ''/home/app''), (''PATH'', ''/usr/bin''),
                 (''DATABRICKS_OAUTH_TOKEN'', ''t0k'')],
      default_workspace = (\<lambda>email name. ''workspaces/'' @ email @ ''/'' @ name),
      path_str = (\<lambda>w. w),
      mkdir_ok = (\<lambda>w. True),
      is_executable_file = (\<lambda>p. False),
      openpty = Some (7, 8),
      fork = In_parent 4242,
      child_setup_ok = True,
      execvpe = (\<lambda>b. Exec_replaced),
      running_loop = True,
      transcript_open_ok = True,
      transcript_write_ok = True,
      getpgid = (\<lambda>p. Some p),
      killpg_ok = (\<lambda>g. True),
      write_ok = True,
      loop_closed = False,
      str_upper = (\<lambda>s. s)\<rparr>"

definition a_session :: "string \<Rightarrow> string \<Rightarrow> string \<Rightarrow> bool \<Rightarrow> ClaudeSession" where
  "a_session sid email name live =
     \<lparr>session_id = sid, user_email = email, session_name = name,
      master_fd = 7, pid = 4242, workspace_dir = ''workspaces/'' @ email @ ''/'' @ name,
      output_buffer = [], last_activity = 900, started_at = 900,
      alive = live, subscribers = [], loop = True, transcript_file = None\<rparr>"

text \<open>
  Fifty live sessions, ten for each of five owners: the registry at the default global
  cap. Session \<open>i\<close> has the id \<open>s\<close> repeated \<open>i + 1\<close> times.
\<close>

definition full_registry :: registry where
  "full_registry =
     map (\<lambda>i. (replicate (Suc i) CHR ''s'',
                a_session (replicate (Suc i) CHR ''s'')
                  (replicate (Suc (i div 10)) CHR ''u'')
                  (replicate (Suc (i mod 10)) CHR ''n'') True))
       [0..<50]"

section \<open>Notions used in the proofs\<close>

text \<open>The number of registered sessions with a property.\<close>

definition cnt :: "(ClaudeSession \<Rightarrow> bool) \<Rightarrow> registry \<Rightarrow> nat" where
  "cnt P reg = length (filter P (dict_values reg))"

text \<open>Predicates on sessions that only look at the owner and at being alive.\<close>

definition monotone_pred :: "(ClaudeSession \<Rightarrow> bool) \<Rightarrow> bool" where
  "monotone_pred P \<longleftrightarrow>
     (\<forall>s s'. user_email s' = user_email s \<and> (alive s' \<longrightarrow> alive s) \<and> P s' \<longrightarrow> P s)"

text \<open>A history of two creations, both by owner \<open>a\<close>.\<close>

definition two_creates :: "op list" where
  "two_creates =
     [Op_create sunny_os ''s1'' ''a'' ''x'' None None,
      Op_create sunny_os ''s2'' ''a'' ''y'' None None]"

text \<open>
  The world as the forked child sees it, with a given process environment: every
  call succeeds and \<^verbatim>\<open>fork\<close> has returned zero.
\<close>

definition child_os :: "(string, string) dict \<Rightarrow> os_world" where
  "child_os envir = sunny_os\<lparr>fork := In_child, environ := envir\<rparr>"

text \<open>The items of the optional argument \<^verbatim>\<open>env\<close> of \<^verbatim>\<open>create_session\<close>.\<close>

definition extras :: "(string, string) dict option \<Rightarrow> (string, string) dict" where
  "extras env = (case env of None \<Rightarrow> [] | Some e \<Rightarrow> e)"

text \<open>A live session with given subscriber queues, with or without an event loop.\<close>

definition a_reader_session :: "bool \<Rightarrow> (nat \<times> queue) list \<Rightarrow> ClaudeSession" where
  "a_reader_session has_loop subs =
     (a_session ''s1'' ''a'' ''x'' True)\<lparr>loop := has_loop, subscribers := subs\<rparr>"

text \<open>The handler right after \<^verbatim>\<open>accept\<close>, with nothing sent.\<close>

definition fresh_handler :: ws_handler where
  "fresh_handler = \<lparr>phase = Accepted, sent = []\<rparr>"

text \<open>
  A schedule in which a whole pass of the reader falls between the replay of the
  handler and its subscription.
\<close>

definition racing_schedule :: "event list" where
  "racing_schedule =
     [Reader_read (Read_data ''c1''), Reader_fanout, Ws_step,
      Reader_read (Read_data ''c2''), Reader_fanout, Ws_step,
      Reader_read (Read_data ''c3''), Reader_fanout, Ws_step, Ws_step]"

text \<open>
  A schedule in which the handler replays and subscribes between the two halves of a
  pass of the reader.
\<close>

definition straddling_schedule :: "event list" where
  "straddling_schedule =
     [Reader_read (Read_data ''c1''), Ws_step, Ws_step, Reader_fanout, Ws_step]"

text \<open>The last \<open>n\<close> items of a list.\<close>

definition lastn :: "nat \<Rightarrow> 'a list \<Rightarrow> 'a list" where
  "lastn n xs = drop (length xs - n) xs"

section \<open>Facts about dictionaries\<close>

lemma dict_pop_absent: "map_of d k = None \<Longrightarrow> filter (\<lambda>p. fst p \<noteq> k) d = d"
  by (induction d) (auto split: if_splits)

lemma map_of_filter_key: "map_of (filter (\<lambda>p. fst p \<noteq> k) d) k = None"
  by (induction d) auto

lemma map_of_filter_other: "k' \<noteq> k \<Longrightarrow> map_of (filter (\<lambda>p. fst p \<noteq> k) d) k' = map_of d k'"
  by (induction d) auto

lemma map_of_dict_setitem: "map_of (dict_setitem k v d) = (map_of d)(k \<mapsto> v)"
  by (induction d) (auto simp: fun_eq_iff)

section \<open>Creating a session whose owner and name are registered\<close>

lemma live_count_full_registry: "live_count full_registry = 50"
  by (simp add: live_count_def full_registry_def dict_values_def a_session_def filter_map comp_def)

lemma find_duplicate_full_registry:
  "find_duplicate ''u'' ''n'' full_registry = Some (a_session ''s'' ''u'' ''n'' True)"
  by (simp add: find_duplicate_def full_registry_def dict_values_def a_session_def upt_rec)

lemma find_duplicate_Some:
  "find_duplicate email name reg = Some s \<Longrightarrow>
     s \<in> set (dict_values reg) \<and> user_email s = email \<and> session_name s = name"
  by (auto simp: find_duplicate_def find_Some_iff)

lemma create_session_duplicate:
  assumes "find_duplicate email name reg = Some s"
  shows "create_session cfg os sid email name env wso reg =
     (if max_sessions cfg \<le> int (live_count reg)
      then (Raise (RuntimeError_max_sessions (max_sessions cfg)), reg, [])
      else (Return s, reg, []))"
  using assms by (simp add: create_session_def create_session_locked_def)

text \<open>
  C1, as the code has it. When the first registered session with the owner and name
  of the call is live, \<^verbatim>\<open>create_session\<close> returns that very session and leaves the
  registry as it was, making no system call, provided the number of live sessions is
  below \<^verbatim>\<open>MAX_SESSIONS\<close>. At or above that number the global check, which comes first,
  raises the capacity error instead.
\<close>

theorem create_session_returns_live_duplicate:
  assumes "find_duplicate email name reg = Some s" and "alive s"
  shows "s \<in> set (dict_values reg) \<and> alive s \<and> user_email s = email \<and> session_name s = name \<and>
     create_session cfg os sid email name env wso reg =
       (if max_sessions cfg \<le> int (live_count reg)
        then (Raise (RuntimeError_max_sessions (max_sessions cfg)), reg, [])
        else (Return s, reg, []))"
  using assms find_duplicate_Some [OF assms(1)] create_session_duplicate [OF assms(1)]
  by simp

theorem create_session_returns_live_duplicate_witness:
  "create_session default_config sunny_os ''new'' ''a'' ''x'' None None
     [(''s1'', a_session ''s1'' ''a'' ''x'' True)] =
   (Return (a_session ''s1'' ''a'' ''x'' True), [(''s1'', a_session ''s1'' ''a'' ''x'' True)], [])"
proof -
  have dup: "find_duplicate ''a'' ''x'' [(''s1'', a_session ''s1'' ''a'' ''x'' True)] =
      Some (a_session ''s1'' ''a'' ''x'' True)"
    by (simp add: find_duplicate_def dict_values_def a_session_def)
  have live: "alive (a_session ''s1'' ''a'' ''x'' True)"
    by (simp add: a_session_def)
  have below:
    "\<not> max_sessions default_config \<le> int (live_count [(''s1'', a_session ''s1'' ''a'' ''x'' True)])"
    by (simp add: default_config_def live_count_def dict_values_def)
  from create_session_returns_live_duplicate [OF dup live] below show ?thesis
    by simp
qed

text \<open>
  Against C1 as stated: with fifty live sessions registered, among them the live
  session \<open>s\<close> of owner \<open>u\<close> and name \<open>n\<close>, a call for \<open>u\<close> and \<open>n\<close> raises and returns
  nothing; and with one session of owner \<open>a\<close> and name \<open>x\<close> registered that is not alive,
  a call for \<open>a\<close> and \<open>x\<close> returns that session.
\<close>

theorem create_session_live_duplicate_counterexample:
  "find_duplicate ''u'' ''n'' full_registry = Some (a_session ''s'' ''u'' ''n'' True) \<and>
   alive (a_session ''s'' ''u'' ''n'' True) \<and>
   create_session default_config sunny_os ''new'' ''u'' ''n'' None None full_registry =
     (Raise (RuntimeError_max_sessions 50), full_registry, []) \<and>
   create_session default_config sunny_os ''new'' ''a'' ''x'' None None
     [(''s1'', a_session ''s1'' ''a'' ''x'' False)] =
     (Return (a_session ''s1'' ''a'' ''x'' False), [(''s1'', a_session ''s1'' ''a'' ''x'' False)], [])"
proof -
  have dead: "find_duplicate ''a'' ''x'' [(''s1'', a_session ''s1'' ''a'' ''x'' False)] =
      Some (a_session ''s1'' ''a'' ''x'' False)"
    by (simp add: find_duplicate_def dict_values_def a_session_def)
  have none_live: "live_count [(''s1'', a_session ''s1'' ''a'' ''x'' False)] = 0"
    by (simp add: live_count_def dict_values_def a_session_def)
  show ?thesis
    using create_session_duplicate [OF find_duplicate_full_registry]
      create_session_duplicate [OF dead] none_live
    by (simp add: find_duplicate_full_registry live_count_full_registry default_config_def)
      (simp add: a_session_def)
qed

text \<open>
  C10, as the code has it. When a session with the owner and name of the call is
  registered and the number of live sessions is below \<^verbatim>\<open>MAX_SESSIONS\<close>, a call with any
  workspace override returns the first such session as it is registered, so with its
  own workspace directory; the registry is unchanged and no system call is made, so
  no directory is created.
\<close>

theorem create_session_ignores_workspace_override:
  assumes "find_duplicate email name reg = Some s"
    and "int (live_count reg) < max_sessions cfg"
  shows "create_session cfg os sid email name env workspace_override reg = (Return s, reg, []) \<and>
     s \<in> set (dict_values reg)"
  using assms find_duplicate_Some [OF assms(1)] create_session_duplicate [OF assms(1)]
  by simp

theorem create_session_ignores_workspace_override_witness:
  "create_session default_config sunny_os ''new'' ''a'' ''x'' None (Some ''/srv/other-repo'')
     [(''s1'', a_session ''s1'' ''a'' ''x'' True)] =
   (Return (a_session ''s1'' ''a'' ''x'' True), [(''s1'', a_session ''s1'' ''a'' ''x'' True)], []) \<and>
   workspace_dir (a_session ''s1'' ''a'' ''x'' True) = ''workspaces/a/x''"
proof -
  have dup: "find_duplicate ''a'' ''x'' [(''s1'', a_session ''s1'' ''a'' ''x'' True)] =
      Some (a_session ''s1'' ''a'' ''x'' True)"
    by (simp add: find_duplicate_def dict_values_def a_session_def)
  have below:
    "int (live_count [(''s1'', a_session ''s1'' ''a'' ''x'' True)]) < max_sessions default_config"
    by (simp add: default_config_def live_count_def dict_values_def)
  from create_session_ignores_workspace_override [OF dup below] show ?thesis
    by (simp add: a_session_def)
qed

text \<open>
  Against C10 as stated: with fifty live sessions registered, a call for a registered
  owner and name that brings a workspace override raises the capacity error and
  returns no session.
\<close>

theorem create_session_workspace_override_counterexample:
  "find_duplicate ''u'' ''n'' full_registry = Some (a_session ''s'' ''u'' ''n'' True) \<and>
   create_session default_config sunny_os ''new'' ''u'' ''n'' None (Some ''/srv/other-repo'')
     full_registry =
     (Raise (RuntimeError_max_sessions 50), full_registry, [])"
  using create_session_duplicate [OF find_duplicate_full_registry]
  by (simp add: find_duplicate_full_registry live_count_full_registry default_config_def)

section \<open>A spawn that fails\<close>

text \<open>
  C2 at a failing input. On an empty registry, with a world in which \<^verbatim>\<open>pty.openpty\<close>
  raises, \<^verbatim>\<open>create_session\<close> raises the error to its caller and the registry keeps the
  placeholder: an entry that counts as alive and has the process id \<open>-1\<close>.
\<close>

theorem create_session_openpty_failure_keeps_placeholder:
  "create_session default_config (sunny_os\<lparr>openpty := None\<rparr>) ''abc'' ''u@x'' ''s1'' None None [] =
     (Raise (OSError ''openpty''),
      [(''abc'', new_placeholder sunny_os ''abc'' ''u@x'' ''s1'' ''workspaces/u@x/s1'')],
      [Mkdir ''workspaces/u@x/s1'', Openpty]) \<and>
   alive (new_placeholder sunny_os ''abc'' ''u@x'' ''s1'' ''workspaces/u@x/s1'') \<and>
   pid (new_placeholder sunny_os ''abc'' ''u@x'' ''s1'' ''workspaces/u@x/s1'') = - 1"
  by (simp add: create_session_def create_session_locked_def spawn_def default_config_def
      sunny_os_def live_count_def dict_values_def find_duplicate_def user_sessions_def
      workspace_path_def new_placeholder_def Let_def)

section \<open>The caps on live sessions\<close>

lemma live_count_cnt: "live_count reg = cnt alive reg"
  by (simp add: live_count_def cnt_def)

lemma user_sessions_cnt:
  "length (user_sessions email reg) = cnt (\<lambda>s. alive s \<and> user_email s = email) reg"
  by (simp add: user_sessions_def cnt_def)

lemma cnt_setitem_le: "cnt P (dict_setitem k v reg) \<le> cnt P reg + (if P v then 1 else 0)"
  by (induction reg) (auto simp: cnt_def dict_values_def)

lemma cnt_setitem_shrink:
  "map_of reg k = Some s \<Longrightarrow> (P v \<Longrightarrow> P s) \<Longrightarrow> cnt P (dict_setitem k v reg) \<le> cnt P reg"
  by (induction reg) (auto simp: cnt_def dict_values_def)

lemma cnt_filter_le: "cnt P (filter Q reg) \<le> cnt P reg"
  by (induction reg) (auto simp: cnt_def dict_values_def)

lemma dict_setitem_twice: "dict_setitem k v (dict_setitem k w d) = dict_setitem k v d"
  by (induction d) auto

lemma cnt_on_session:
  "(\<And>s. P (f s) \<Longrightarrow> P s) \<Longrightarrow> cnt P (on_session sid f reg) \<le> cnt P reg"
  by (auto simp: on_session_def get_session_def dict_get_def split: option.splits
      intro: cnt_setitem_shrink)

lemma spawn_registry:
  "fst (snd (spawn os sid ws env p r)) = r \<or>
   (\<exists>mfd cp lp tf. fst (snd (spawn os sid ws env p r)) =
      dict_setitem sid (p\<lparr>pid := cp, master_fd := mfd, loop := lp, workspace_dir := ws,
        transcript_file := tf\<rparr>) r)"
proof (cases "mkdir_ok os ws")
  case False
  then show ?thesis by (simp add: spawn_def)
next
  case True
  show ?thesis
  proof (cases "openpty os")
    case None
    with True show ?thesis by (simp add: spawn_def Let_def)
  next
    case (Some fds)
    obtain mfd sfd where fds: "fds = (mfd, sfd)" by (cases fds)
    show ?thesis
    proof (cases "fork os")
      case (In_parent cp)
      with True Some fds have "fst (snd (spawn os sid ws env p r)) =
        dict_setitem sid (p\<lparr>pid := cp, master_fd := mfd, loop := running_loop os,
          workspace_dir := ws,
          transcript_file := (if transcript_open_ok os then Some [] else None)\<rparr>) r"
        by (simp add: spawn_def Let_def)
      then show ?thesis by blast
    qed (use True Some fds in \<open>simp_all add: spawn_def Let_def\<close>)
  qed
qed

lemma create_session_registry:
  "fst (snd (create_session cfg os sid email name env wso reg)) = reg \<or>
   (int (live_count reg) < max_sessions cfg \<and>
    int (length (user_sessions email reg)) < max_sessions_per_user cfg \<and>
    (\<exists>v. alive v \<and> user_email v = email \<and>
       fst (snd (create_session cfg os sid email name env wso reg)) = dict_setitem sid v reg))"
proof -
  let ?ws = "workspace_path os email name wso"
  let ?p = "new_placeholder os sid email name ?ws"
  have p: "alive ?p \<and> user_email ?p = email"
    by (simp add: new_placeholder_def)
  have spawn_reg:
    "fst (snd (spawn os sid ?ws env ?p r)) = r \<or>
     (\<exists>v. alive v \<and> user_email v = email \<and> fst (snd (spawn os sid ?ws env ?p r)) = dict_setitem sid v r)"
    for r
  proof -
    from spawn_registry [of os sid ?ws env ?p r] show ?thesis
    proof
      assume "fst (snd (spawn os sid ?ws env ?p r)) = r"
      then show ?thesis by simp
    next
      assume "\<exists>mfd cp lp tf. fst (snd (spawn os sid ?ws env ?p r)) =
        dict_setitem sid (?p\<lparr>pid := cp, master_fd := mfd, loop := lp, workspace_dir := ?ws,
          transcript_file := tf\<rparr>) r"
      then obtain mfd cp lp tf where "fst (snd (spawn os sid ?ws env ?p r)) =
        dict_setitem sid (?p\<lparr>pid := cp, master_fd := mfd, loop := lp, workspace_dir := ?ws,
          transcript_file := tf\<rparr>) r"
        by blast
      moreover have "alive (?p\<lparr>pid := cp, master_fd := mfd, loop := lp, workspace_dir := ?ws,
          transcript_file := tf\<rparr>) \<and> user_email (?p\<lparr>pid := cp, master_fd := mfd, loop := lp,
          workspace_dir := ?ws, transcript_file := tf\<rparr>) = email"
        by (simp add: new_placeholder_def)
      ultimately show ?thesis by blast
    qed
  qed
  show ?thesis
  proof (cases "create_session_locked cfg os sid email name ?ws reg")
    case (Pair out reg')
    show ?thesis
    proof (cases out)
      case (Locked_raise e)
      with Pair show ?thesis
        by (auto simp: create_session_def create_session_locked_def split: if_splits option.splits)
    next
      case (Locked_return s)
      with Pair show ?thesis
        by (auto simp: create_session_def create_session_locked_def split: if_splits option.splits)
    next
      case (Locked_placeholder q)
      with Pair have q: "q = ?p" and reg': "reg' = dict_setitem sid ?p reg"
        and caps: "int (live_count reg) < max_sessions cfg"
          "int (length (user_sessions email reg)) < max_sessions_per_user cfg"
        by (auto simp: create_session_locked_def split: if_splits option.splits)
      have res: "fst (snd (create_session cfg os sid email name env wso reg)) =
          fst (snd (spawn os sid ?ws env ?p reg'))"
        using Pair Locked_placeholder q by (simp add: create_session_def Let_def)
      from spawn_reg [of reg'] show ?thesis
      proof
        assume "fst (snd (spawn os sid ?ws env ?p reg')) = reg'"
        with res reg' p caps show ?thesis by auto
      next
        assume "\<exists>v. alive v \<and> user_email v = email \<and>
          fst (snd (spawn os sid ?ws env ?p reg')) = dict_setitem sid v reg'"
        then obtain v where "alive v" "user_email v = email"
          "fst (snd (spawn os sid ?ws env ?p reg')) = dict_setitem sid v reg'"
          by blast
        with res reg' caps show ?thesis
          by (auto simp: dict_setitem_twice)
      qed
    qed
  qed
qed

lemma stop_session_registry:
  "fst (snd (stop_session os sid reg)) = filter (\<lambda>p. fst p \<noteq> sid) reg"
  by (simp add: stop_session_def dict_pop_def split: option.splits)

lemma cnt_stop_sessions: "cnt P (fst (snd (stop_sessions os sids reg))) \<le> cnt P reg"
proof (induction sids arbitrary: reg)
  case Nil
  show ?case by simp
next
  case (Cons k sids)
  have "cnt P (fst (snd (stop_session os k reg))) \<le> cnt P reg"
    by (simp add: stop_session_registry cnt_filter_le)
  moreover have "cnt P (fst (snd (stop_sessions os (k # sids) reg))) \<le>
      cnt P (fst (snd (stop_session os k reg)))"
    using Cons.IH [of "fst (snd (stop_session os k reg))"]
    by (auto split: prod.splits call_outcome.splits)
  ultimately show ?case by linarith
qed


lemma monotone_predD:
  "monotone_pred P \<Longrightarrow> user_email s' = user_email s \<Longrightarrow> (alive s' \<Longrightarrow> alive s) \<Longrightarrow> P s' \<Longrightarrow> P s"
  unfolding monotone_pred_def by blast

lemma monotone_pred_alive: "monotone_pred alive"
  by (simp add: monotone_pred_def)

lemma monotone_pred_user: "monotone_pred (\<lambda>s. alive s \<and> user_email s = email)"
  by (auto simp: monotone_pred_def)

lemma cnt_on_session_monotone:
  assumes "monotone_pred P"
    and "\<And>s. user_email (f s) = user_email s \<and> (alive (f s) \<longrightarrow> alive s)"
  shows "cnt P (on_session sid f reg) \<le> cnt P reg"
proof (rule cnt_on_session)
  fix s assume "P (f s)"
  with assms show "P s" unfolding monotone_pred_def by blast
qed

lemma cnt_write:
  assumes "monotone_pred P"
  shows "cnt P (fst (snd (write_to_session os sid data reg))) \<le> cnt P reg"
proof (cases "get_session reg sid")
  case None
  then show ?thesis by (simp add: write_to_session_def)
next
  case (Some s)
  have t: "P (touch os s) \<Longrightarrow> P s"
    by (rule monotone_predD [OF assms, of "touch os s"]) (simp_all add: touch_def)
  have d: "P (s\<lparr>alive := False\<rparr>) \<Longrightarrow> P s"
    by (rule monotone_predD [OF assms, of "s\<lparr>alive := False\<rparr>"]) simp_all
  from Some have m: "map_of reg sid = Some s"
    by (simp add: get_session_def dict_get_def)
  show ?thesis
    using Some cnt_setitem_shrink [OF m, of P "touch os s"]
      cnt_setitem_shrink [OF m, of P "s\<lparr>alive := False\<rparr>"] t d
    by (auto simp: write_to_session_def)
qed

lemma cnt_resize: "cnt P (fst (snd (resize_session os sid rows cols reg))) \<le> cnt P reg"
  by (simp add: resize_session_def split: option.splits)

lemma cnt_create:
  "cnt P (fst (snd (create_session cfg os sid email name env wso reg))) \<le> cnt P reg \<or>
   (int (live_count reg) < max_sessions cfg \<and>
    int (length (user_sessions email reg)) < max_sessions_per_user cfg \<and>
    (\<exists>v. alive v \<and> user_email v = email \<and>
       cnt P (fst (snd (create_session cfg os sid email name env wso reg))) \<le>
         cnt P reg + (if P v then 1 else 0)))"
  using create_session_registry [of cfg os sid email name env wso reg]
    cnt_setitem_le [of P sid _ reg]
  by (metis order_refl)

lemma reader_pass_keeps:
  "user_email (reader_pass cfg os r s) = user_email s \<and>
   (alive (reader_pass cfg os r s) \<longrightarrow> alive s)"
  by (simp add: reader_pass_def reader_exit_def reader_chunk_def reader_append_def reader_fanout_def split: read_outcome.splits)

lemma apply_op_cnt:
  assumes "monotone_pred P"
  shows "cnt P (apply_op cfg x reg) \<le> cnt P reg \<or>
     (\<exists>os sid email name env wso v. x = Op_create os sid email name env wso \<and>
        int (live_count reg) < max_sessions cfg \<and>
        int (length (user_sessions email reg)) < max_sessions_per_user cfg \<and>
        alive v \<and> user_email v = email \<and>
        cnt P (apply_op cfg x reg) \<le> cnt P reg + (if P v then 1 else 0))"
proof (cases x)
  case (Op_create os sid email name env wso)
  with cnt_create [of P cfg os sid email name env wso reg] show ?thesis
    by auto
next
  case (Op_stop os sid)
  then show ?thesis by (simp add: stop_session_registry cnt_filter_le)
next
  case (Op_cleanup os)
  then show ?thesis by (simp add: cleanup_idle_def cnt_stop_sessions)
next
  case (Op_stop_all os)
  then show ?thesis by (simp add: stop_all_def cnt_stop_sessions)
next
  case (Op_write os sid data)
  with cnt_write [OF assms] show ?thesis by simp
next
  case (Op_resize os sid rows cols)
  then show ?thesis by (simp add: cnt_resize)
next
  case (Op_reader os sid r)
  with cnt_on_session_monotone [OF assms, of "reader_pass cfg os r"] reader_pass_keeps
  show ?thesis by simp
next
  case (Op_subscribe sid)
  with cnt_on_session_monotone [OF assms, of "\<lambda>s. snd (subscribe s)"] show ?thesis
    by (simp add: subscribe_def Let_def)
next
  case (Op_unsubscribe sid q)
  with cnt_on_session_monotone [OF assms, of "unsubscribe q"] show ?thesis
    by (simp add: unsubscribe_def)
next
  case (Op_touch os sid)
  with cnt_on_session_monotone [OF assms, of "touch os"] show ?thesis
    by (simp add: touch_def)
qed

lemma apply_op_live_count:
  "int (live_count reg) \<le> max_sessions cfg \<Longrightarrow>
     int (live_count (apply_op cfg x reg)) \<le> max_sessions cfg"
  using apply_op_cnt [OF monotone_pred_alive, of cfg x reg]
  by (auto simp: live_count_cnt split: if_splits)

lemma apply_op_user_sessions:
  "int (length (user_sessions owner reg)) \<le> max_sessions_per_user cfg \<Longrightarrow>
     int (length (user_sessions owner (apply_op cfg x reg))) \<le> max_sessions_per_user cfg"
  using apply_op_cnt [OF monotone_pred_user, of owner cfg x reg]
  by (auto simp: user_sessions_cnt split: if_splits)

lemma run_live_count:
  "int (live_count reg) \<le> max_sessions cfg \<Longrightarrow>
     int (live_count (run cfg ops reg)) \<le> max_sessions cfg"
  unfolding run_def by (induction ops arbitrary: reg) (simp_all add: apply_op_live_count)

lemma run_user_sessions:
  "int (length (user_sessions owner reg)) \<le> max_sessions_per_user cfg \<Longrightarrow>
     int (length (user_sessions owner (run cfg ops reg))) \<le> max_sessions_per_user cfg"
  unfolding run_def by (induction ops arbitrary: reg) (simp_all add: apply_op_user_sessions)


text \<open>
  C3. A call of \<^verbatim>\<open>create_session\<close> made while the live sessions number
  \<^verbatim>\<open>MAX_SESSIONS\<close> or more raises the global capacity error and leaves the registry
  as it was. A call that would insert (no session with its owner and name is
  registered) while the live sessions of its owner number \<^verbatim>\<open>MAX_SESSIONS_PER_USER\<close> or
  more raises the per-owner capacity error and leaves the registry as it was. The
  checks and the insertion are one step of the model, as they are one critical section
  of the source. Hence no history of operations takes the registry from within a cap
  to beyond it, for the global count and for the count of every owner; from the
  empty registry, with caps that are not negative, both bounds hold throughout.
\<close>

theorem capacity_invariant:
  "(max_sessions cfg \<le> int (live_count reg) \<longrightarrow>
      create_session cfg os sid email name env wso reg =
        (Raise (RuntimeError_max_sessions (max_sessions cfg)), reg, [])) \<and>
   (int (live_count reg) < max_sessions cfg \<and> find_duplicate email name reg = None \<and>
    max_sessions_per_user cfg \<le> int (length (user_sessions email reg)) \<longrightarrow>
      create_session cfg os sid email name env wso reg =
        (Raise (RuntimeError_max_sessions_per_user (max_sessions_per_user cfg)), reg, [])) \<and>
   (int (live_count reg) \<le> max_sessions cfg \<longrightarrow>
      int (live_count (run cfg ops reg)) \<le> max_sessions cfg) \<and>
   (int (length (user_sessions owner reg)) \<le> max_sessions_per_user cfg \<longrightarrow>
      int (length (user_sessions owner (run cfg ops reg))) \<le> max_sessions_per_user cfg) \<and>
   (0 \<le> max_sessions cfg \<and> 0 \<le> max_sessions_per_user cfg \<longrightarrow>
      int (live_count (run cfg ops [])) \<le> max_sessions cfg \<and>
      int (length (user_sessions owner (run cfg ops []))) \<le> max_sessions_per_user cfg)"
proof -
  have global: "max_sessions cfg \<le> int (live_count reg) \<longrightarrow>
      create_session cfg os sid email name env wso reg =
        (Raise (RuntimeError_max_sessions (max_sessions cfg)), reg, [])"
    by (simp add: create_session_def create_session_locked_def)
  have per_user: "int (live_count reg) < max_sessions cfg \<and> find_duplicate email name reg = None \<and>
    max_sessions_per_user cfg \<le> int (length (user_sessions email reg)) \<longrightarrow>
      create_session cfg os sid email name env wso reg =
        (Raise (RuntimeError_max_sessions_per_user (max_sessions_per_user cfg)), reg, [])"
    by (simp add: create_session_def create_session_locked_def)
  have empty: "live_count [] = 0" "length (user_sessions owner []) = 0"
    by (simp_all add: live_count_def user_sessions_def dict_values_def)
  show ?thesis
    using global per_user run_live_count [of reg cfg ops] run_user_sessions [of owner reg cfg ops]
      run_live_count [of "[]" cfg ops] run_user_sessions [of owner "[]" cfg ops] empty
    by simp
qed

lemma run_two_creates: "map fst (run default_config two_creates []) = [''s1'', ''s2'']"
  by (simp add: run_def two_creates_def create_session_def create_session_locked_def spawn_def
      default_config_def sunny_os_def live_count_def dict_values_def find_duplicate_def
      user_sessions_def workspace_path_def new_placeholder_def Let_def)

theorem capacity_invariant_witness:
  "create_session default_config sunny_os ''new'' ''v'' ''m'' None None full_registry =
     (Raise (RuntimeError_max_sessions 50), full_registry, []) \<and>
   int (live_count (run default_config two_creates [])) \<le> 50 \<and>
   int (length (user_sessions ''a'' (run default_config two_creates []))) \<le> 10 \<and>
   map fst (run default_config two_creates []) = [''s1'', ''s2'']"
  using capacity_invariant [of default_config full_registry sunny_os "''new''" "''v''" "''m''"
      None None two_creates "''a''"]
    capacity_invariant [of default_config "[]" sunny_os "''new''" "''v''" "''m''"
      None None two_creates "''a''"]
  by (simp add: live_count_full_registry run_two_creates) (simp add: default_config_def)

section \<open>Stopping a session\<close>

lemma stop_session_absent:
  "get_session reg sid = None \<Longrightarrow> stop_session os sid reg = (Returned_None, reg, [])"
  by (simp add: stop_session_def dict_pop_def get_session_def dict_get_def dict_pop_absent)

lemma stop_session_present:
  "get_session reg sid = Some s \<Longrightarrow>
     stop_session os sid reg =
       (Returned_None, filter (\<lambda>p. fst p \<noteq> sid) reg,
        signal_child os s @ [Close_fd (master_fd s), Waitpid (pid s), Log_stopped sid])"
  by (simp add: stop_session_def dict_pop_def get_session_def dict_get_def teardown_def
      signal_child_def split: option.splits)

lemma stop_session_outcome: "fst (stop_session os sid reg) = Returned_None"
  by (cases "get_session reg sid") (simp_all add: stop_session_absent stop_session_present)

lemma get_session_after_stop:
  "get_session (fst (snd (stop_session os k reg))) sid =
     (if k = sid then None else get_session reg sid)"
  by (simp add: stop_session_registry get_session_def dict_get_def map_of_filter_key
      map_of_filter_other)

lemma count_signal_child: "count_list (signal_child os s) (Log_stopped sid) = 0"
  by (simp add: signal_child_def split: option.splits)

lemma count_stop_session:
  "count_list (snd (snd (stop_session os k reg))) (Log_stopped sid) =
     (if k = sid \<and> get_session reg sid \<noteq> None then 1 else 0)"
  by (cases "get_session reg k")
    (auto simp: stop_session_absent stop_session_present count_signal_child)

lemma stop_sessions_outcome: "fst (stop_sessions os sids reg) = Returned_None"
proof (induction sids arbitrary: reg)
  case Nil
  show ?case by simp
next
  case (Cons k sids)
  obtain r reg' calls where s: "stop_session os k reg = (r, reg', calls)"
    by (cases "stop_session os k reg") auto
  with stop_session_outcome [of os k reg] have r: "r = Returned_None" by simp
  obtain r2 reg2 calls2 where s2: "stop_sessions os sids reg' = (r2, reg2, calls2)"
    by (cases "stop_sessions os sids reg'") auto
  with Cons.IH [of reg'] have "r2 = Returned_None" by simp
  with s r s2 show ?case by simp
qed

lemma stop_sessions_Cons:
  "stop_sessions os (k # sids) reg =
     (Returned_None,
      fst (snd (stop_sessions os sids (fst (snd (stop_session os k reg))))),
      snd (snd (stop_session os k reg)) @
      snd (snd (stop_sessions os sids (fst (snd (stop_session os k reg))))))"
proof -
  obtain r reg' calls where s: "stop_session os k reg = (r, reg', calls)"
    by (cases "stop_session os k reg") auto
  with stop_session_outcome [of os k reg] have r: "r = Returned_None" by simp
  obtain r2 reg2 calls2 where s2: "stop_sessions os sids reg' = (r2, reg2, calls2)"
    by (cases "stop_sessions os sids reg'") auto
  with stop_sessions_outcome [of os sids reg'] have "r2 = Returned_None" by simp
  with s r s2 show ?thesis by simp
qed

lemma stop_sessions_absent:
  "get_session reg sid = None \<Longrightarrow>
     count_list (snd (snd (stop_sessions os sids reg))) (Log_stopped sid) = 0 \<and>
     get_session (fst (snd (stop_sessions os sids reg))) sid = None"
proof (induction sids arbitrary: reg)
  case Nil
  then show ?case by simp
next
  case (Cons k sids)
  have "get_session (fst (snd (stop_session os k reg))) sid = None"
    using Cons.prems by (simp add: get_session_after_stop)
  from Cons.IH [OF this] Cons.prems show ?case
    by (simp only: stop_sessions_Cons) (simp add: count_stop_session)
qed

lemma stop_sessions_count:
  "count_list (snd (snd (stop_sessions os sids reg))) (Log_stopped sid) \<le> 1"
proof (induction sids arbitrary: reg)
  case Nil
  show ?case by simp
next
  case (Cons k sids)
  show ?case
  proof (cases "k = sid")
    case True
    have "get_session (fst (snd (stop_session os k reg))) sid = None"
      using True by (simp add: get_session_after_stop)
    from stop_sessions_absent [OF this, of os sids] show ?thesis
      by (simp only: stop_sessions_Cons) (simp add: count_stop_session)
  next
    case False
    with Cons.IH [of "fst (snd (stop_session os k reg))"] show ?thesis
      by (simp only: stop_sessions_Cons) (simp add: count_stop_session)
  qed
qed

lemma stop_sessions_removes:
  "sid \<in> set sids \<Longrightarrow> get_session (fst (snd (stop_sessions os sids reg))) sid = None"
proof (induction sids arbitrary: reg)
  case Nil
  then show ?case by simp
next
  case (Cons k sids)
  show ?case
  proof (cases "k = sid")
    case True
    have "get_session (fst (snd (stop_session os k reg))) sid = None"
      using True by (simp add: get_session_after_stop)
    from stop_sessions_absent [OF this, of os sids] show ?thesis
      by (simp only: stop_sessions_Cons) simp
  next
    case False
    with Cons.prems have "sid \<in> set sids" by simp
    from Cons.IH [OF this] show ?thesis
      by (simp only: stop_sessions_Cons) simp
  qed
qed

lemma stop_sessions_survivor:
  "get_session (fst (snd (stop_sessions os sids reg))) sid \<noteq> None \<Longrightarrow>
     count_list (snd (snd (stop_sessions os sids reg))) (Log_stopped sid) = 0"
proof (induction sids arbitrary: reg)
  case Nil
  show ?case by simp
next
  case (Cons k sids)
  show ?case
  proof (cases "k = sid")
    case True
    have "get_session (fst (snd (stop_session os k reg))) sid = None"
      using True by (simp add: get_session_after_stop)
    from stop_sessions_absent [OF this, of os sids] Cons.prems show ?thesis
      by (simp only: stop_sessions_Cons) simp
  next
    case False
    from Cons.prems
    have "get_session (fst (snd (stop_sessions os sids (fst (snd (stop_session os k reg)))))) sid
        \<noteq> None"
      by (simp only: stop_sessions_Cons) simp
    from Cons.IH [OF this] False show ?thesis
      by (simp only: stop_sessions_Cons) (simp add: count_stop_session)
  qed
qed

text \<open>
  C4. A call of \<^verbatim>\<open>stop_session\<close> that finds the session signals the process group of
  the child (the child alone when the group cannot be found or signalled), closes the
  master descriptor, reaps without blocking, and leaves no entry for the id. A second
  call on the id returns without a system call and without an error. In any sequence
  of stop calls, as the reaper and \<^verbatim>\<open>stop_all\<close> make them, the teardown of an id (marked
  by its closing log line) runs at most once and no call raises. The same holds when
  the reaper has chosen its ids before an explicit stop and stops them after it, and
  when an explicit stop follows a whole sweep of the reaper; the id is absent at the end.
\<close>

theorem stop_session_idempotent:
  "(get_session reg sid = Some s \<longrightarrow>
      stop_session os sid reg =
        (Returned_None, filter (\<lambda>p. fst p \<noteq> sid) reg,
         signal_child os s @ [Close_fd (master_fd s), Waitpid (pid s), Log_stopped sid])) \<and>
   get_session (fst (snd (stop_session os sid reg))) sid = None \<and>
   stop_session os' sid (fst (snd (stop_session os sid reg))) =
     (Returned_None, fst (snd (stop_session os sid reg)), []) \<and>
   fst (stop_sessions os sids reg) = Returned_None \<and>
   count_list (snd (snd (stop_sessions os sids reg))) (Log_stopped sid) \<le> 1 \<and>
   (sid \<in> set sids \<longrightarrow> get_session (fst (snd (stop_sessions os sids reg))) sid = None) \<and>
   count_list
     (snd (snd (stop_session os sid reg)) @
      snd (snd (stop_sessions os' (cleanup_select cfg os' reg) (fst (snd (stop_session os sid reg))))))
     (Log_stopped sid) \<le> 1 \<and>
   get_session
     (fst (snd (stop_sessions os' (cleanup_select cfg os' reg) (fst (snd (stop_session os sid reg))))))
     sid = None \<and>
   count_list
     (snd (snd (cleanup_idle cfg os reg)) @
      snd (snd (stop_session os' sid (fst (snd (cleanup_idle cfg os reg))))))
     (Log_stopped sid) \<le> 1 \<and>
   get_session (fst (snd (stop_session os' sid (fst (snd (cleanup_idle cfg os reg)))))) sid = None"
proof -
  let ?reg1 = "fst (snd (stop_session os sid reg))"
  let ?reg2 = "fst (snd (cleanup_idle cfg os reg))"
  have gone: "get_session ?reg1 sid = None"
    by (simp add: get_session_after_stop)
  have first: "get_session reg sid = Some s \<longrightarrow>
      stop_session os sid reg =
        (Returned_None, filter (\<lambda>p. fst p \<noteq> sid) reg,
         signal_child os s @ [Close_fd (master_fd s), Waitpid (pid s), Log_stopped sid])"
    by (simp add: stop_session_present)
  have race1: "count_list
     (snd (snd (stop_session os sid reg)) @
      snd (snd (stop_sessions os' (cleanup_select cfg os' reg) ?reg1))) (Log_stopped sid) \<le> 1"
    using stop_sessions_absent [OF gone, of os' "cleanup_select cfg os' reg"]
    by (simp add: count_stop_session)
  have race2: "count_list
     (snd (snd (cleanup_idle cfg os reg)) @ snd (snd (stop_session os' sid ?reg2)))
     (Log_stopped sid) \<le> 1"
  proof (cases "get_session ?reg2 sid")
    case None
    with stop_sessions_count [of os "cleanup_select cfg os reg" reg sid] show ?thesis
      by (simp add: stop_session_absent cleanup_idle_def)
  next
    case (Some s')
    then have "count_list (snd (snd (cleanup_idle cfg os reg))) (Log_stopped sid) = 0"
      using stop_sessions_survivor [of os "cleanup_select cfg os reg" reg sid]
      by (simp add: cleanup_idle_def)
    then show ?thesis by (simp add: count_stop_session)
  qed
  show ?thesis
    using first gone stop_session_absent [OF gone, of os'] stop_sessions_outcome [of os sids reg]
      stop_sessions_count [of os sids reg sid] stop_sessions_removes [of sid sids os reg]
      race1 race2 stop_sessions_absent [OF gone, of os' "cleanup_select cfg os' reg"]
    by (simp add: get_session_after_stop)
qed

theorem stop_session_idempotent_witness:
  "stop_session sunny_os ''s1'' [(''s1'', a_session ''s1'' ''a'' ''x'' True)] =
     (Returned_None, [], [Killpg 4242, Close_fd 7, Waitpid 4242, Log_stopped ''s1'']) \<and>
   stop_session sunny_os ''s1''
     (fst (snd (stop_session sunny_os ''s1'' [(''s1'', a_session ''s1'' ''a'' ''x'' True)]))) =
     (Returned_None, [], []) \<and>
   count_list
     (snd (snd (stop_sessions sunny_os [''s1'', ''s1''] [(''s1'', a_session ''s1'' ''a'' ''x'' True)])))
     (Log_stopped ''s1'') \<le> 1 \<and>
   get_session
     (fst (snd (stop_sessions sunny_os [''s1'', ''s1''] [(''s1'', a_session ''s1'' ''a'' ''x'' True)])))
     ''s1'' = None"
proof -
  have present: "get_session [(''s1'', a_session ''s1'' ''a'' ''x'' True)] ''s1'' =
      Some (a_session ''s1'' ''a'' ''x'' True)"
    by (simp add: get_session_def dict_get_def)
  have calls: "signal_child sunny_os (a_session ''s1'' ''a'' ''x'' True) = [Killpg 4242]"
    by (simp add: signal_child_def sunny_os_def a_session_def)
  have fields: "master_fd (a_session ''s1'' ''a'' ''x'' True) = 7"
    "pid (a_session ''s1'' ''a'' ''x'' True) = 4242"
    by (simp_all add: a_session_def)
  from stop_session_idempotent [of "[(''s1'', a_session ''s1'' ''a'' ''x'' True)]" "''s1''"
      "a_session ''s1'' ''a'' ''x'' True" sunny_os sunny_os "[''s1'', ''s1'']" default_config]
    present calls fields
  show ?thesis by (simp add: stop_session_def dict_pop_def del: stop_sessions.simps)
qed

text \<open>
  C6, as the code has it. For an id with no entry in the registry, \<^verbatim>\<open>write_to_session\<close>,
  \<^verbatim>\<open>resize_session\<close> and \<^verbatim>\<open>stop_session\<close> return \<^verbatim>\<open>None\<close> like a successful call:
  they raise nothing, make no system call and leave the registry as it was.
\<close>

theorem absent_session_calls_are_silent:
  assumes "get_session reg sid = None"
  shows "write_to_session os sid data reg = (Returned_None, reg, []) \<and>
     resize_session os sid rows cols reg = (Returned_None, reg, []) \<and>
     stop_session os sid reg = (Returned_None, reg, [])"
  using assms stop_session_absent [OF assms]
  by (simp add: write_to_session_def resize_session_def)

theorem absent_session_calls_are_silent_witness:
  "write_to_session sunny_os ''gone'' ''ls'' [(''s1'', a_session ''s1'' ''a'' ''x'' True)] =
     (Returned_None, [(''s1'', a_session ''s1'' ''a'' ''x'' True)], []) \<and>
   resize_session sunny_os ''gone'' 24 80 [(''s1'', a_session ''s1'' ''a'' ''x'' True)] =
     (Returned_None, [(''s1'', a_session ''s1'' ''a'' ''x'' True)], []) \<and>
   stop_session sunny_os ''gone'' [(''s1'', a_session ''s1'' ''a'' ''x'' True)] =
     (Returned_None, [(''s1'', a_session ''s1'' ''a'' ''x'' True)], [])"
proof -
  have "get_session [(''s1'', a_session ''s1'' ''a'' ''x'' True)] ''gone'' = None"
    by (simp add: get_session_def dict_get_def)
  from absent_session_calls_are_silent [OF this] show ?thesis .
qed

text \<open>
  Against C6 as stated: on the empty registry the three calls for the id \<open>gone\<close> return
  \<^verbatim>\<open>None\<close>, the result of a successful call, and no error.
\<close>

theorem absent_session_not_signalled_counterexample:
  "get_session [] ''gone'' = None \<and>
   fst (write_to_session sunny_os ''gone'' ''ls'' []) = Returned_None \<and>
   fst (resize_session sunny_os ''gone'' 24 80 []) = Returned_None \<and>
   fst (stop_session sunny_os ''gone'' []) = Returned_None"
  by (simp add: get_session_def dict_get_def write_to_session_def resize_session_def
      stop_session_def dict_pop_def)

section \<open>The forked child\<close>

text \<open>
  C5 at a failing input. No candidate path holds an executable, so the binary resolves
  to the bare name \<open>claude\<close>; in the forked child \<^verbatim>\<open>os.execvpe\<close> fails, which in Python
  means it raises. The error leaves \<^verbatim>\<open>create_session\<close> in the child: line 264 is not
  reached and the child does not exit.
\<close>

theorem child_exec_failure_raises_in_child:
  "resolve_claude_binary sunny_os = ''claude'' \<and>
   fst (create_session default_config
          (sunny_os\<lparr>fork := In_child, execvpe := (\<lambda>b. Exec_raises)\<rparr>)
          ''abc'' ''u@x'' ''s1'' None None []) = Child_raise (OSError ''execvpe'')"
  by (simp add: create_session_def create_session_locked_def spawn_def child_branch_def
      default_config_def sunny_os_def live_count_def dict_values_def find_duplicate_def
      user_sessions_def workspace_path_def new_placeholder_def Let_def
      resolve_claude_binary_def environ_get_def dict_get_def path_join_def)

section \<open>The child's environment\<close>

lemma map_of_dict_update: "map_of (dict_update d e) = map_of d ++ map_of (rev e)"
  by (induction e arbitrary: d) (auto simp: map_of_dict_setitem fun_eq_iff map_add_def split: option.splits)

lemma map_of_strip: "map_of (filter (\<lambda>p. \<not> Q (fst p)) d) k = (if Q k then None else map_of d k)"
  by (induction d) auto

lemma build_child_env_contents:
  "map_of (build_child_env os ws env) k =
     (case map_of (rev (extras env)) k of
        Some v \<Rightarrow> Some v
      | None \<Rightarrow>
          if is_oauth_key os k then None
          else if k = ''PATH''
            then Some (environ_get os ''HOME'' ''/tmp/workshop-home'' @ ''/.local/bin:'' @
                       environ_get os ''PATH'' ''/usr/bin'')
          else if k = ''LANG'' then Some ''en_US.UTF-8''
          else if k = ''TERM'' then Some ''xterm-256color''
          else if k = ''PWD'' then Some ws
          else if k = ''HOME'' then Some (environ_get os ''HOME'' ''/tmp/workshop-home'')
          else map_of (environ os) k)"
proof -
  let ?base = "dict_update (environ os)
      [(''HOME'', environ_get os ''HOME'' ''/tmp/workshop-home''),
       (''PWD'', ws),
       (''TERM'', ''xterm-256color''),
       (''LANG'', ''en_US.UTF-8''),
       (''PATH'', environ_get os ''HOME'' ''/tmp/workshop-home'' @ ''/.local/bin:'' @
                  environ_get os ''PATH'' ''/usr/bin'')]"
  let ?stripped = "filter (\<lambda>p. \<not> is_oauth_key os (fst p)) ?base"
  have base: "map_of ?base k =
      (if k = ''PATH''
         then Some (environ_get os ''HOME'' ''/tmp/workshop-home'' @ ''/.local/bin:'' @
                    environ_get os ''PATH'' ''/usr/bin'')
       else if k = ''LANG'' then Some ''en_US.UTF-8''
       else if k = ''TERM'' then Some ''xterm-256color''
       else if k = ''PWD'' then Some ws
       else if k = ''HOME'' then Some (environ_get os ''HOME'' ''/tmp/workshop-home'')
       else map_of (environ os) k)"
    by (simp add: map_of_dict_setitem)
  have stripped: "map_of ?stripped k = (if is_oauth_key os k then None else map_of ?base k)"
    by (rule map_of_strip)
  have build: "build_child_env os ws env =
      (if extras env = [] then ?stripped else dict_update ?stripped (extras env))"
    by (simp add: build_child_env_def Let_def extras_def split: option.splits)
  have "map_of (build_child_env os ws env) k =
      (case map_of (rev (extras env)) k of Some v \<Rightarrow> Some v | None \<Rightarrow> map_of ?stripped k)"
    unfolding build
    by (simp add: map_of_dict_update map_add_def split: option.splits)
  then show ?thesis
    unfolding stripped base .
qed

lemma spawn_child_exec:
  "fst (spawn os sid ws env p reg) = Child_exec bin args child_env \<Longrightarrow>
     child_env = build_child_env os ws env \<and> bin = resolve_claude_binary os \<and>
     args = [bin, ''--dangerously-skip-permissions'']"
  by (auto simp: spawn_def child_branch_def Let_def
      split: if_splits option.splits prod.splits fork_outcome.splits exec_outcome.splits)

lemma create_session_child_exec:
  assumes "fst (create_session cfg os sid email name env wso reg) = Child_exec bin args child_env"
  shows "child_env = build_child_env os (workspace_path os email name wso) env \<and>
     bin = resolve_claude_binary os \<and> args = [bin, ''--dangerously-skip-permissions'']"
proof -
  let ?ws = "workspace_path os email name wso"
  obtain out reg' where l: "create_session_locked cfg os sid email name ?ws reg = (out, reg')"
    by (cases "create_session_locked cfg os sid email name ?ws reg") auto
  show ?thesis
  proof (cases out)
    case (Locked_placeholder p)
    with l assms have "fst (spawn os sid ?ws env p reg') = Child_exec bin args child_env"
      by (simp add: create_session_def Let_def)
    then show ?thesis by (rule spawn_child_exec)
  qed (use l assms in \<open>simp_all add: create_session_def Let_def\<close>)
qed

text \<open>
  C9, as the code has it. Whenever \<^verbatim>\<open>create_session\<close> reaches \<^verbatim>\<open>os.execvpe\<close> in the
  child, the environment it hands over is, name by name: the value the caller gave in
  \<^verbatim>\<open>env\<close>, when it gave one; otherwise nothing for a name whose upper-case form
  (\<^verbatim>\<open>str.upper\<close>) contains \<open>OAUTH\<close>; otherwise the injected value for \<open>HOME\<close>, \<open>PWD\<close>
  (the workspace directory of the call), \<open>TERM\<close>, \<open>LANG\<close> and \<open>PATH\<close>; otherwise the
  value of the parent's environment.
\<close>

theorem child_env_contents:
  assumes "fst (create_session cfg os sid email name env wso reg) = Child_exec bin args child_env"
  shows "map_of child_env k =
     (case map_of (rev (extras env)) k of
        Some v \<Rightarrow> Some v
      | None \<Rightarrow>
          if is_oauth_key os k then None
          else if k = ''PATH''
            then Some (environ_get os ''HOME'' ''/tmp/workshop-home'' @ ''/.local/bin:'' @
                       environ_get os ''PATH'' ''/usr/bin'')
          else if k = ''LANG'' then Some ''en_US.UTF-8''
          else if k = ''TERM'' then Some ''xterm-256color''
          else if k = ''PWD'' then Some (workspace_path os email name wso)
          else if k = ''HOME'' then Some (environ_get os ''HOME'' ''/tmp/workshop-home'')
          else map_of (environ os) k)"
  using create_session_child_exec [OF assms] build_child_env_contents by simp

lemma create_session_in_child:
  "fst (create_session default_config (child_os envir) ''abc'' ''u@x'' ''s1'' env None []) =
     Child_exec ''claude'' [''claude'', ''--dangerously-skip-permissions'']
       (build_child_env (child_os envir) ''workspaces/u@x/s1'' env)"
  by (simp add: create_session_def create_session_locked_def spawn_def child_branch_def
      default_config_def child_os_def sunny_os_def live_count_def dict_values_def
      find_duplicate_def user_sessions_def workspace_path_def new_placeholder_def Let_def
      resolve_claude_binary_def environ_get_def dict_get_def path_join_def)

theorem child_env_contents_witness:
  "fst (create_session default_config (child_os (environ sunny_os)) ''abc'' ''u@x'' ''s1'' None None [])
     = Child_exec ''claude'' [''claude'', ''--dangerously-skip-permissions'']
         (build_child_env (child_os (environ sunny_os)) ''workspaces/u@x/s1'' None) \<and>
   map_of (build_child_env (child_os (environ sunny_os)) ''workspaces/u@x/s1'' None)
     ''DATABRICKS_OAUTH_TOKEN'' = None \<and>
   map_of (build_child_env (child_os (environ sunny_os)) ''workspaces/u@x/s1'' None)
     ''HOME'' = Some ''/home/app'' \<and>
   map_of (build_child_env (child_os (environ sunny_os)) ''workspaces/u@x/s1'' None)
     ''PWD'' = Some ''workspaces/u@x/s1'' \<and>
   map_of (build_child_env (child_os (environ sunny_os)) ''workspaces/u@x/s1'' None)
     ''TERM'' = Some ''xterm-256color'' \<and>
   map_of (build_child_env (child_os (environ sunny_os)) ''workspaces/u@x/s1'' None)
     ''PATH'' = Some ''/home/app/.local/bin:/usr/bin''"
proof -
  note c = create_session_in_child [of "environ sunny_os" None]
  show ?thesis
    using c child_env_contents [OF c, of "''DATABRICKS_OAUTH_TOKEN''"]
      child_env_contents [OF c, of "''HOME''"] child_env_contents [OF c, of "''PWD''"]
      child_env_contents [OF c, of "''TERM''"] child_env_contents [OF c, of "''PATH''"]
    by (simp add: extras_def is_oauth_key_def upper_def is_ascii_def upper_char_def
        environ_get_def dict_get_def child_os_def sunny_os_def workspace_path_def)
qed

text \<open>
  Against C9 as stated: a variable named \<open>MY_OAUTH_TOKEN\<close> given in \<^verbatim>\<open>env\<close> is in the
  environment the child is started with, and so is the parent's \<open>DATABRICKS_TOKEN\<close>.
\<close>

theorem child_env_counterexample:
  "fst (create_session default_config (child_os (environ sunny_os)) ''abc'' ''u@x'' ''s1''
          (Some [(''MY_OAUTH_TOKEN'', ''secret'')]) None [])
     = Child_exec ''claude'' [''claude'', ''--dangerously-skip-permissions'']
         (build_child_env (child_os (environ sunny_os)) ''workspaces/u@x/s1''
            (Some [(''MY_OAUTH_TOKEN'', ''secret'')])) \<and>
   is_oauth_key (child_os (environ sunny_os)) ''MY_OAUTH_TOKEN'' \<and>
   map_of (build_child_env (child_os (environ sunny_os)) ''workspaces/u@x/s1''
             (Some [(''MY_OAUTH_TOKEN'', ''secret'')]))
     ''MY_OAUTH_TOKEN'' = Some ''secret'' \<and>
   fst (create_session default_config (child_os [(''DATABRICKS_TOKEN'', ''dapi123'')])
          ''abc'' ''u@x'' ''s1'' None None [])
     = Child_exec ''claude'' [''claude'', ''--dangerously-skip-permissions'']
         (build_child_env (child_os [(''DATABRICKS_TOKEN'', ''dapi123'')])
            ''workspaces/u@x/s1'' None) \<and>
   map_of (build_child_env (child_os [(''DATABRICKS_TOKEN'', ''dapi123'')])
             ''workspaces/u@x/s1'' None)
     ''DATABRICKS_TOKEN'' = Some ''dapi123''"
  using create_session_in_child [of "environ sunny_os" "Some [(''MY_OAUTH_TOKEN'', ''secret'')]"]
    create_session_in_child [of "[(''DATABRICKS_TOKEN'', ''dapi123'')]" None]
  by (simp add: build_child_env_def Let_def is_oauth_key_def upper_def is_ascii_def
      upper_char_def environ_get_def dict_get_def child_os_def sunny_os_def)

section \<open>The end of the reader\<close>

lemma reader_chunk_alive: "alive (reader_chunk cfg os s d) = alive s"
  by (simp add: reader_chunk_def reader_append_def reader_fanout_def)

lemma reader_loop_chunks:
  assumes "alive s" and "\<forall>d \<in> set ds. d \<noteq> []"
  shows "reader_loop cfg os (map Read_data ds @ rs) s =
     reader_loop cfg os rs (fold (\<lambda>d s. reader_chunk cfg os s d) ds s)"
  using assms
proof (induction ds arbitrary: s)
  case Nil
  show ?case by simp
next
  case (Cons d ds)
  then show ?case by (simp add: reader_chunk_alive)
qed

lemma fold_reader_chunk_alive:
  "alive (fold (\<lambda>d s. reader_chunk cfg os s d) ds s) = alive s"
  by (induction ds arbitrary: s) (simp_all add: reader_chunk_alive)

lemma fold_reader_chunk_pid:
  "pid (fold (\<lambda>d s. reader_chunk cfg os s d) ds s) = pid s"
  by (induction ds arbitrary: s) (simp_all add: reader_chunk_def reader_append_def reader_fanout_def)

lemma fold_reader_chunk_loop:
  "loop (fold (\<lambda>d s. reader_chunk cfg os s d) ds s) = loop s"
  by (induction ds arbitrary: s) (simp_all add: reader_chunk_def reader_append_def reader_fanout_def)

text \<open>
  C8, as the code has it. When the reader of a live session has read chunks and the
  next read gives end of file or an error, the loop returns: the session is no longer
  alive, the last call is the reap of the child without blocking, and the sentinel is
  put into the queue of every subscriber registered then whose queue holds fewer than
  1000 items, provided the session has an event loop and the loop is not closed.
  Otherwise a queue stays as it is.
\<close>

theorem reader_termination:
  assumes "alive s" and "\<forall>d \<in> set ds. d \<noteq> []" and "t = Read_error \<or> t = Read_data []"
  shows "\<exists>s' calls.
     reader_loop cfg os (map Read_data ds @ t # rest) s = Some (s', calls) \<and>
     \<not> alive s' \<and>
     subscribers s' =
       map (\<lambda>p. (fst p,
                 if loop s \<and> \<not> loop_closed os \<and> length (snd p) < queue_maxsize
                 then snd p @ [None] else snd p))
         (subscribers (fold (\<lambda>d s. reader_chunk cfg os s d) ds s)) \<and>
     calls \<noteq> [] \<and> last calls = Waitpid (pid s)"
proof -
  let ?s = "fold (\<lambda>d s. reader_chunk cfg os s d) ds s"
  have live: "alive ?s" using assms(1) by (simp add: fold_reader_chunk_alive)
  have "reader_loop cfg os (map Read_data ds @ t # rest) s = reader_loop cfg os (t # rest) ?s"
    by (rule reader_loop_chunks [OF assms(1,2)])
  also have "\<dots> = Some (reader_exit os ?s)"
    using assms(3) live by auto
  finally have r: "reader_loop cfg os (map Read_data ds @ t # rest) s = Some (reader_exit os ?s)" .
  have subs: "subscribers (fst (reader_exit os ?s)) =
       map (\<lambda>p. (fst p,
                 if loop s \<and> \<not> loop_closed os \<and> length (snd p) < queue_maxsize
                 then snd p @ [None] else snd p))
         (subscribers ?s)"
    by (auto simp: reader_exit_def broadcast_def put_nowait_def fold_reader_chunk_loop
        map_idI)
  show ?thesis
    using r subs
    by (simp add: reader_exit_def fold_reader_chunk_pid)
qed

theorem reader_termination_witness:
  "reader_loop default_config sunny_os [Read_data ''hi'', Read_data []]
     (a_reader_session True [(0, [])]) =
   Some ((a_reader_session True [(0, [Some ''hi'', None])])
           \<lparr>output_buffer := [''hi''], last_activity := 1000, alive := False\<rparr>,
         [Waitpid 4242])"
proof -
  have "alive (a_reader_session True [(0, [])])"
    by (simp add: a_reader_session_def a_session_def)
  moreover have "\<forall>d \<in> set [''hi'']. d \<noteq> []" by simp
  moreover have "Read_data [] = Read_error \<or> Read_data [] = Read_data []" by simp
  ultimately have "\<exists>s' calls.
     reader_loop default_config sunny_os (map Read_data [''hi''] @ Read_data [] # [])
       (a_reader_session True [(0, [])]) = Some (s', calls) \<and>
     \<not> alive s' \<and>
     subscribers s' =
       map (\<lambda>p. (fst p,
                 if loop (a_reader_session True [(0, [])]) \<and> \<not> loop_closed sunny_os \<and>
                    length (snd p) < queue_maxsize
                 then snd p @ [None] else snd p))
         (subscribers (fold (\<lambda>d s. reader_chunk default_config sunny_os s d) [''hi'']
            (a_reader_session True [(0, [])]))) \<and>
     calls \<noteq> [] \<and> last calls = Waitpid (pid (a_reader_session True [(0, [])]))"
    by (rule reader_termination)
  then show ?thesis
    by (simp add: a_reader_session_def a_session_def reader_chunk_def reader_append_def reader_fanout_def reader_exit_def
        broadcast_def put_nowait_def queue_maxsize_def deque_append_def default_config_def
        sunny_os_def)
qed

text \<open>
  Against C8 as stated: the reader ends on a session without an event loop, and on a
  session whose one subscriber has a full queue; in both the queue of the subscriber
  is as before and holds no sentinel.
\<close>

theorem reader_sentinel_counterexample:
  "reader_loop default_config sunny_os [Read_data []] (a_reader_session False [(0, [])]) =
     Some ((a_reader_session False [(0, [])])\<lparr>alive := False\<rparr>, [Waitpid 4242]) \<and>
   reader_loop default_config sunny_os [Read_error]
       (a_reader_session True [(0, replicate 1000 (Some ''x''))]) =
     Some ((a_reader_session True [(0, replicate 1000 (Some ''x''))])\<lparr>alive := False\<rparr>,
           [Waitpid 4242]) \<and>
   None \<notin> set (replicate 1000 (Some ''x''))"
  by (simp add: a_reader_session_def a_session_def reader_exit_def
      broadcast_def put_nowait_def queue_maxsize_def sunny_os_def)

section \<open>Replay and live delivery\<close>

lemma deque_append_lastn:
  assumes "0 \<le> maxlen" and "length buf \<le> nat maxlen"
  shows "deque_append maxlen buf x = lastn (nat maxlen) (buf @ [x])"
proof (cases "int (length buf) < maxlen")
  case True
  then have "length buf + 1 - nat maxlen = 0" by linarith
  with True show ?thesis by (simp add: deque_append_def lastn_def)
next
  case False
  with assms have len: "length buf = nat maxlen" by linarith
  show ?thesis
  proof (cases "maxlen = 0")
    case True
    with len False show ?thesis by (simp add: deque_append_def lastn_def)
  next
    case nz: False
    with len assms have "buf \<noteq> []" by auto
    then obtain a list where buf: "buf = a # list" by (cases buf) auto
    with len have "Suc (Suc (length list)) - nat maxlen = 1" by simp
    with False nz buf show ?thesis by (simp add: deque_append_def lastn_def)
  qed
qed

lemma lastn_snoc: "lastn n (lastn n xs @ [x]) = lastn n (xs @ [x])"
proof (cases "n \<le> length xs")
  case True
  then have "Suc (length xs) - n = Suc (length xs - n)" by simp
  with True show ?thesis by (simp add: lastn_def)
next
  case False
  then show ?thesis by (simp add: lastn_def)
qed

lemma length_lastn: "length (lastn n xs) \<le> n"
  by (simp add: lastn_def)

lemma fold_reader_chunk_buffer:
  "0 \<le> output_buffer_maxlen cfg \<Longrightarrow>
   length (output_buffer s) \<le> nat (output_buffer_maxlen cfg) \<Longrightarrow>
     output_buffer (fold (\<lambda>d s. reader_chunk cfg os s d) ds s) =
       lastn (nat (output_buffer_maxlen cfg)) (output_buffer s @ ds)"
proof (induction ds arbitrary: s)
  case Nil
  then show ?case by (simp add: lastn_def)
next
  case (Cons d ds)
  let ?n = "nat (output_buffer_maxlen cfg)"
  let ?s = "reader_chunk cfg os s d"
  have b: "output_buffer ?s = lastn ?n (output_buffer s @ [d])"
    using Cons.prems by (simp add: reader_chunk_def reader_append_def reader_fanout_def deque_append_lastn)
  then have "length (output_buffer ?s) \<le> ?n"
    by (simp add: length_lastn)
  from Cons.IH [OF Cons.prems(1) this]
  have "output_buffer (fold (\<lambda>d s. reader_chunk cfg os s d) (d # ds) s) =
      lastn ?n (lastn ?n (output_buffer s @ [d]) @ ds)"
    by (simp add: b)
  also have "\<dots> = lastn ?n ((output_buffer s @ [d]) @ ds)"
  proof (induction ds rule: rev_induct)
    case Nil
    show ?case by (simp add: lastn_def)
  next
    case (snoc y ys)
    have "lastn ?n (lastn ?n (output_buffer s @ [d]) @ ys @ [y]) =
        lastn ?n (lastn ?n (lastn ?n (output_buffer s @ [d]) @ ys) @ [y])"
      using lastn_snoc [of ?n "lastn ?n (output_buffer s @ [d]) @ ys" y] by simp
    also have "\<dots> = lastn ?n (lastn ?n ((output_buffer s @ [d]) @ ys) @ [y])"
      by (simp only: snoc)
    also have "\<dots> = lastn ?n (((output_buffer s @ [d]) @ ys) @ [y])"
      by (rule lastn_snoc)
    finally show ?case by simp
  qed
  finally show ?case by simp
qed

lemma fold_max_mono:
  fixes xs :: "(nat \<times> queue) list"
  shows "m \<le> fold (\<lambda>p m. max (Suc (fst p)) m) xs m"
proof (induction xs arbitrary: m)
  case Nil
  show ?case by simp
next
  case (Cons b xs)
  from Cons [of "max (Suc (fst b)) m"] show ?case by simp
qed

lemma fresh_qid_bound:
  fixes subs :: "(nat \<times> queue) list"
  shows "p \<in> set subs \<Longrightarrow> fst p < fold (\<lambda>p m. max (Suc (fst p)) m) subs m0"
proof (induction subs arbitrary: m0)
  case Nil
  then show ?case by simp
next
  case (Cons a subs)
  show ?case
  proof (cases "p = a")
    case True
    with fold_max_mono [of "max (Suc (fst a)) m0" subs] show ?thesis by simp
  next
    case False
    with Cons.prems have "p \<in> set subs" by simp
    from Cons.IH [OF this] show ?thesis by simp
  qed
qed

lemma fresh_qid_fresh: "map_of subs (fresh_qid subs) = None"
proof (rule ccontr)
  assume "map_of subs (fresh_qid subs) \<noteq> None"
  then obtain q where "map_of subs (fresh_qid subs) = Some q" by auto
  then have "(fresh_qid subs, q) \<in> set subs" by (rule map_of_SomeD)
  from fresh_qid_bound [OF this, of 0] show False by (simp add: fresh_qid_def)
qed

lemma queue_of_subscribe:
  "queue_of (fst (subscribe s)) (snd (subscribe s)) = Some []"
  by (simp add: subscribe_def Let_def queue_of_def dict_get_def fresh_qid_fresh map_add_def)

lemma dict_get_map_snd:
  "dict_get (map (\<lambda>p. (fst p, f (snd p))) xs) k = map_option f (dict_get xs k)"
  by (induction xs) (auto simp: dict_get_def)

lemma system_run_whole_passes:
  assumes "alive s" and "\<forall>d \<in> set ds. d \<noteq> []"
  shows "system_run cfg os (whole_passes ds @ evs) (Reading, s, h) =
     system_run cfg os evs (Reading, fold (\<lambda>d s. reader_chunk cfg os s d) ds s, h)"
  using assms
proof (induction ds arbitrary: s)
  case Nil
  show ?case by (simp add: whole_passes_def)
next
  case (Cons d ds)
  have "alive (reader_chunk cfg os s d)" using Cons.prems by (simp add: reader_chunk_alive)
  from Cons.IH [OF this] Cons.prems show ?case
    by (simp add: system_run_def whole_passes_def reader_chunk_def)
qed

lemma system_run_Cons:
  "system_run cfg os (e # evs) st = system_run cfg os evs (system_step cfg os e st)"
  by (simp add: system_run_def)

text \<open>What holds between the steps once the handler has subscribed.\<close>

lemma subscribed_run:
  assumes "alive s" and "loop s" and "\<not> loop_closed os"
    and "phase h = Subscribed q" and "queue_of q s = Some (map Some pend)"
    and "no_overflow rd (length pend) evs"
  shows "\<exists>rd' s' h' pend'.
     system_run cfg os evs (rd, s, h) = (rd', s', h') \<and>
     phase h' = Subscribed q \<and> queue_of q s' = Some (map Some pend') \<and>
     sent h' @ pend' = sent h @ pend @ fanned_out rd evs"
  using assms
proof (induction evs arbitrary: rd s h pend)
  case Nil
  then show ?case by (simp add: system_run_def)
next
  case (Cons e evs)
  note IH = Cons.IH [OF _ _ Cons.prems(3)]
  show ?case
  proof (cases e)
    case (Reader_read r)
    show ?thesis
    proof (cases rd)
      case Reading
      with Reader_read Cons.prems(6) obtain d where r: "r = Read_data d" and d: "d \<noteq> []"
        and rest: "no_overflow (Holding d) (length pend) evs"
        by (cases r) auto
      let ?s = "reader_append cfg os s d"
      have step: "system_step cfg os e (rd, s, h) = (Holding d, ?s, h)"
        using Reader_read Reading r d Cons.prems(1) by simp
      have "alive ?s" "loop ?s" "queue_of q ?s = Some (map Some pend)"
        using Cons.prems(1,2,5) by (simp_all add: reader_append_def queue_of_def)
      moreover have f: "fanned_out rd (e # evs) = fanned_out (Holding d) evs"
        using Reader_read Reading r by simp
      ultimately show ?thesis
        using IH [of ?s h pend "Holding d"] Cons.prems(4) rest
        by (simp add: system_run_Cons step f)
    next
      case (Holding d')
      have step: "system_step cfg os e (rd, s, h) = (rd, s, h)"
        using Reader_read Holding by simp
      have rest: "no_overflow rd (length pend) evs"
        using Cons.prems(6) Reader_read Holding by (cases r) simp_all
      have f: "fanned_out rd (e # evs) = fanned_out rd evs"
        using Reader_read Holding by (cases r) simp_all
      from IH [OF Cons.prems(1,2,4,5) rest] show ?thesis
        by (simp add: system_run_Cons step f)
    next
      case Ended
      have step: "system_step cfg os e (rd, s, h) = (rd, s, h)"
        using Reader_read Ended by simp
      have rest: "no_overflow rd (length pend) evs"
        using Cons.prems(6) Reader_read Ended by (cases r) simp_all
      have f: "fanned_out rd (e # evs) = fanned_out rd evs"
        using Reader_read Ended by (cases r) simp_all
      from IH [OF Cons.prems(1,2,4,5) rest] show ?thesis
        by (simp add: system_run_Cons step f)
    qed
  next
    case Reader_fanout
    show ?thesis
    proof (cases rd)
      case (Holding d)
      with Reader_fanout Cons.prems(6) have room: "length pend < queue_maxsize"
        and rest: "no_overflow Reading (Suc (length pend)) evs"
        by simp_all
      let ?s = "reader_fanout os s d"
      have step: "system_step cfg os e (rd, s, h) = (Reading, ?s, h)"
        using Reader_fanout Holding by simp
      have "subscribers ?s = map (\<lambda>p. (fst p, put_nowait (snd p) (Some d))) (subscribers s)"
        using Cons.prems(2,3) by (simp add: reader_fanout_def broadcast_def)
      then have "queue_of q ?s = map_option (\<lambda>q. put_nowait q (Some d)) (queue_of q s)"
        using dict_get_map_snd [of "\<lambda>q. put_nowait q (Some d)" "subscribers s" q]
        by (simp add: queue_of_def)
      then have q': "queue_of q ?s = Some (map Some (pend @ [d]))"
        using Cons.prems(5) room by (simp add: put_nowait_def)
      have "alive ?s" "loop ?s"
        using Cons.prems(1,2) by (simp_all add: reader_fanout_def)
      moreover have f: "fanned_out rd (e # evs) = d # fanned_out Reading evs"
        using Reader_fanout Holding by simp
      ultimately show ?thesis
        using IH [of ?s h "pend @ [d]" Reading] Cons.prems(4) q' rest
        by (simp add: system_run_Cons step f)
    next
      case Reading
      have step: "system_step cfg os e (rd, s, h) = (rd, s, h)"
        using Reader_fanout Reading by simp
      have rest: "no_overflow rd (length pend) evs"
        using Cons.prems(6) Reader_fanout Reading by simp
      have f: "fanned_out rd (e # evs) = fanned_out rd evs"
        using Reader_fanout Reading by simp
      from IH [OF Cons.prems(1,2,4,5) rest] show ?thesis
        by (simp add: system_run_Cons step f)
    next
      case Ended
      have step: "system_step cfg os e (rd, s, h) = (rd, s, h)"
        using Reader_fanout Ended by simp
      have rest: "no_overflow rd (length pend) evs"
        using Cons.prems(6) Reader_fanout Ended by simp
      have f: "fanned_out rd (e # evs) = fanned_out rd evs"
        using Reader_fanout Ended by simp
      from IH [OF Cons.prems(1,2,4,5) rest] show ?thesis
        by (simp add: system_run_Cons step f)
    qed
  next
    case Ws_step
    have rest: "no_overflow rd (length pend - 1) evs"
      using Cons.prems(6) Ws_step by (cases rd) simp_all
    have f: "fanned_out rd (e # evs) = fanned_out rd evs"
      using Ws_step by (cases rd) simp_all
    show ?thesis
    proof (cases pend)
      case Nil
      have "ws_step os (s, h) = (s, h)"
        using Cons.prems(4,5) Nil by (simp add: ws_step_def)
      then have step: "system_step cfg os e (rd, s, h) = (rd, s, h)"
        using Ws_step by simp
      from IH [OF Cons.prems(1,2,4,5)] rest Nil show ?thesis
        by (simp add: system_run_Cons step f)
    next
      case (Cons d ds)
      let ?s = "s\<lparr>subscribers := dict_setitem q (map Some ds) (subscribers s)\<rparr>"
      let ?h = "h\<lparr>sent := sent h @ [d]\<rparr>"
      have "ws_step os (s, h) = (?s, ?h)"
        using Cons.prems(4,5) Cons by (simp add: ws_step_def)
      then have step: "system_step cfg os e (rd, s, h) = (rd, ?s, ?h)"
        using Ws_step by simp
      have q': "queue_of q ?s = Some (map Some ds)"
        by (simp add: queue_of_def dict_get_def map_of_dict_setitem)
      have "alive ?s" "loop ?s" "phase ?h = Subscribed q"
        using Cons.prems(1,2,4) by simp_all
      from IH [OF this q'] rest Cons show ?thesis
        by (simp add: system_run_Cons step f)
    qed
  qed
qed

text \<open>
  C7, as the code has it. Let the reader of a fresh live session with a usable event
  loop make \<open>N\<close> whole passes, let a handler then replay and subscribe while the
  reader is between two passes, and let reads, puts to the subscribers and queue
  reads follow in any order such that the queue of the handler holds fewer than 1000
  items whenever a chunk is put to it. Then what the handler has sent, followed by
  what waits in its queue, is exactly the last \<^verbatim>\<open>OUTPUT_BUFFER_MAXLEN\<close> of the \<open>N\<close>
  chunks followed by every chunk put to the subscribers after the subscription, in
  the order of production.
\<close>

theorem replay_then_live_chunks:
  assumes "alive s" and "loop s" and "\<not> loop_closed os"
    and "output_buffer s = []" and "0 \<le> output_buffer_maxlen cfg"
    and "\<forall>d \<in> set before. d \<noteq> []"
    and "no_overflow Reading 0 later"
  shows "\<exists>rd' s' h' q pending.
     system_run cfg os (whole_passes before @ Ws_step # Ws_step # later)
       (Reading, s, fresh_handler) = (rd', s', h') \<and>
     phase h' = Subscribed q \<and> queue_of q s' = Some (map Some pending) \<and>
     sent h' @ pending =
       drop (length before - nat (output_buffer_maxlen cfg)) before @ fanned_out Reading later"
proof -
  let ?s1 = "fold (\<lambda>d s. reader_chunk cfg os s d) before s"
  let ?h1 = "fresh_handler\<lparr>phase := Replayed, sent := sent fresh_handler @ output_buffer ?s1\<rparr>"
  let ?t = "touch os ?s1"
  let ?q = "fst (subscribe ?t)"
  let ?s2 = "snd (subscribe ?t)"
  let ?h2 = "?h1\<lparr>phase := Subscribed ?q\<rparr>"
  have buffer: "output_buffer ?s1 = drop (length before - nat (output_buffer_maxlen cfg)) before"
    using fold_reader_chunk_buffer [of cfg s os before] assms(4,5) by (simp add: lastn_def)
  have run1: "system_run cfg os (whole_passes before @ Ws_step # Ws_step # later)
       (Reading, s, fresh_handler) =
     system_run cfg os (Ws_step # Ws_step # later) (Reading, ?s1, fresh_handler)"
    by (rule system_run_whole_passes [OF assms(1,6)])
  have step1: "ws_step os (?s1, fresh_handler) = (?t, ?h1)"
    by (simp add: ws_step_def fresh_handler_def)
  have step2: "ws_step os (?t, ?h1) = (?s2, ?h2)"
    by (simp add: ws_step_def split: prod.splits)
  have run2: "system_run cfg os (Ws_step # Ws_step # later) (Reading, ?s1, fresh_handler) =
     system_run cfg os later (Reading, ?s2, ?h2)"
    using step1 step2 by (simp add: system_run_def)
  have live: "alive ?s2" "loop ?s2"
    using assms(1,2)
    by (simp_all add: subscribe_def Let_def touch_def fold_reader_chunk_alive
        fold_reader_chunk_loop)
  have ph: "phase ?h2 = Subscribed ?q" by simp
  have qu: "queue_of ?q ?s2 = Some (map Some [])"
    by (simp add: queue_of_subscribe)
  have ov: "no_overflow Reading (length ([] :: bytes list)) later"
    using assms(7) by simp
  from subscribed_run [OF live assms(3) ph qu ov, of cfg]
  obtain rd' s' h' pend' where
    "system_run cfg os later (Reading, ?s2, ?h2) = (rd', s', h')"
    "phase h' = Subscribed ?q" "queue_of ?q s' = Some (map Some pend')"
    "sent h' @ pend' = sent ?h2 @ [] @ fanned_out Reading later"
    by blast
  with run1 run2 buffer show ?thesis
    by (auto simp: fresh_handler_def)
qed

theorem replay_then_live_chunks_witness:
  "\<exists>rd' s' h' q pending.
     system_run default_config sunny_os
       (whole_passes [''c1'', ''c2''] @ Ws_step # Ws_step #
        [Reader_read (Read_data ''c3''), Ws_step, Reader_fanout, Ws_step,
         Reader_read (Read_data ''c4''), Reader_fanout])
       (Reading, a_reader_session True [], fresh_handler) = (rd', s', h') \<and>
     phase h' = Subscribed q \<and> queue_of q s' = Some (map Some pending) \<and>
     sent h' @ pending = [''c1'', ''c2'', ''c3'', ''c4'']"
proof -
  have "alive (a_reader_session True [])" "loop (a_reader_session True [])"
    "output_buffer (a_reader_session True []) = []"
    by (simp_all add: a_reader_session_def a_session_def)
  moreover have "\<not> loop_closed sunny_os" by (simp add: sunny_os_def)
  moreover have "0 \<le> output_buffer_maxlen default_config" by (simp add: default_config_def)
  moreover have "\<forall>d \<in> set [''c1'', ''c2'']. d \<noteq> []" by simp
  moreover have "no_overflow Reading 0
      [Reader_read (Read_data ''c3''), Ws_step, Reader_fanout, Ws_step,
       Reader_read (Read_data ''c4''), Reader_fanout]"
    by (simp add: queue_maxsize_def)
  ultimately show ?thesis
    using replay_then_live_chunks [of "a_reader_session True []" sunny_os default_config
        "[''c1'', ''c2'']"
        "[Reader_read (Read_data ''c3''), Ws_step, Reader_fanout, Ws_step,
          Reader_read (Read_data ''c4''), Reader_fanout]"]
    by (simp add: default_config_def)
qed

text \<open>
  Against C7 as stated: when the handler replays and subscribes between the two
  halves of a pass, the chunk of that pass is sent twice; a chunk of a whole pass
  between the replay and the subscription is never sent although the buffer still
  holds it; and a chunk put while the queue of the handler holds 1000 items is
  dropped for it.
\<close>

theorem replay_gap_counterexample:
  "system_run default_config sunny_os straddling_schedule
     (Reading, a_reader_session True [], fresh_handler) =
   (Reading,
    (a_reader_session True [(0, [])])
      \<lparr>output_buffer := [''c1''], last_activity := 1000\<rparr>,
    \<lparr>phase = Subscribed 0, sent = [''c1'', ''c1'']\<rparr>) \<and>
   system_run default_config sunny_os racing_schedule
     (Reading, a_reader_session True [], fresh_handler) =
   (Reading,
    (a_reader_session True [(0, [])])
      \<lparr>output_buffer := [''c1'', ''c2'', ''c3''], last_activity := 1000\<rparr>,
    \<lparr>phase = Subscribed 0, sent = [''c1'', ''c3'']\<rparr>) \<and>
   system_run default_config sunny_os [Reader_read (Read_data ''c''), Reader_fanout]
     (Reading, a_reader_session True [(0, replicate 1000 (Some ''x''))],
      \<lparr>phase = Subscribed 0, sent = []\<rparr>) =
   (Reading,
    (a_reader_session True [(0, replicate 1000 (Some ''x''))])
      \<lparr>output_buffer := [''c''], last_activity := 1000\<rparr>,
    \<lparr>phase = Subscribed 0, sent = []\<rparr>) \<and>
   Some ''c'' \<notin> set (replicate 1000 (Some ''x''))"
  by (simp add: system_run_def racing_schedule_def straddling_schedule_def fresh_handler_def
      a_reader_session_def a_session_def ws_step_def subscribe_def fresh_qid_def queue_of_def
      dict_get_def touch_def reader_append_def reader_fanout_def broadcast_def put_nowait_def
      queue_maxsize_def deque_append_def default_config_def sunny_os_def Let_def)

end
